theory Spec2Isabelle
  imports Main "HOL-Library.AList"
begin

section \<open>Cards and the deck\<close>

text \<open>
  The card type of the shared schema: \<^verbatim>\<open>suit\<close> and \<^verbatim>\<open>value\<close> are unions of string
  literals, here datatypes; \<^verbatim>\<open>id\<close> is the string
  \<^verbatim>\<open>`${value}-${suit}-${randomUUID()}`\<close>.
\<close>

datatype suit = spades | hearts | diamonds | clubs

datatype cardValue = VA | V2 | V3 | V4 | V5 | V6 | V7 | V8 | V9 | V10 | VJ | VQ | VK

fun suit_text :: "suit \<Rightarrow> string" where
  "suit_text spades = ''spades''"
| "suit_text hearts = ''hearts''"
| "suit_text diamonds = ''diamonds''"
| "suit_text clubs = ''clubs''"

fun value_text :: "cardValue \<Rightarrow> string" where
  "value_text VA = ''A''"
| "value_text V2 = ''2''"
| "value_text V3 = ''3''"
| "value_text V4 = ''4''"
| "value_text V5 = ''5''"
| "value_text V6 = ''6''"
| "value_text V7 = ''7''"
| "value_text V8 = ''8''"
| "value_text V9 = ''9''"
| "value_text V10 = ''10''"
| "value_text VJ = ''J''"
| "value_text VQ = ''Q''"
| "value_text VK = ''K''"

record card =
  card_suit :: suit
  card_value :: cardValue
  card_id :: string

definition suits :: "suit list" where
  "suits = [spades, hearts, diamonds, clubs]"

definition cardValues :: "cardValue list" where
  "cardValues = [VA, V2, V3, V4, V5, V6, V7, V8, V9, V10, VJ, VQ, VK]"

text \<open>
  \<^verbatim>\<open>shuffleDeck\<close>: the loop \<^verbatim>\<open>for (let i = shuffled.length - 1; i > 0; i--)\<close> swaps
  \<^verbatim>\<open>shuffled[i]\<close> with \<^verbatim>\<open>shuffled[j]\<close>, \<^verbatim>\<open>j = Math.floor(Math.random() * (i + 1))\<close>.
  The draw is an integer between 0 and \<open>i\<close>; the model reads it from the parameter
  \<open>rand\<close> (the outcome of \<^verbatim>\<open>Math.random\<close> at iteration \<open>i\<close>), reduced modulo
  \<open>i + 1\<close>, so that every value of the parameter stands for a draw the source can make.
\<close>

fun shuffleLoop :: "(nat \<Rightarrow> nat) \<Rightarrow> nat \<Rightarrow> card list \<Rightarrow> card list" where
  "shuffleLoop rand 0 shuffled = shuffled"
| "shuffleLoop rand (Suc n) shuffled =
     (let i = Suc n; j = rand i mod (i + 1)
      in shuffleLoop rand n (shuffled[i := shuffled ! j, j := shuffled ! i]))"

definition shuffleDeck :: "(nat \<Rightarrow> nat) \<Rightarrow> card list \<Rightarrow> card list" where
  "shuffleDeck rand deck = shuffleLoop rand (length deck - 1) deck"

text \<open>
  \<^verbatim>\<open>createDeck\<close>: the nested loops push one card per (suit, value) pair, suits outermost;
  \<open>uuid k\<close> is what \<^verbatim>\<open>randomUUID()\<close> returns for the \<open>k\<close>-th card pushed.
\<close>

definition createDeck :: "(nat \<Rightarrow> string) \<Rightarrow> (nat \<Rightarrow> nat) \<Rightarrow> card list" where
  "createDeck uuid rand =
     shuffleDeck rand
       (map (\<lambda>(k, (s, v)).
               \<lparr>card_suit = s, card_value = v,
                card_id = value_text v @ ''-'' @ suit_text s @ ''-'' @ uuid k\<rparr>)
            (enumerate 0 (List.product suits cardValues)))"

section \<open>Rooms, players and the in-memory store\<close>

text \<open>
  The rows of the schema. The integer columns are \<open>int\<close>; the nullable text columns
  \<^verbatim>\<open>deck\<close>, \<^verbatim>\<open>communityCards\<close> and \<^verbatim>\<open>hand\<close> hold \<^verbatim>\<open>JSON.stringify\<close> of a card array
  and are modelled by the array itself (\<open>None\<close> is \<^verbatim>\<open>null\<close>). The timestamps
  \<^verbatim>\<open>createdAt\<close> and \<^verbatim>\<open>joinedAt\<close> are never read and are left out. The fields
  \<^verbatim>\<open>id\<close> and \<^verbatim>\<open>currentBet\<close> exist in both rows and carry the row's name as a prefix.
\<close>

record room =
  room_id :: string
  code :: string
  hostId :: string
  maxPlayers :: int
  currentPlayers :: int
  gameState :: string
  pot :: int
  room_currentBet :: int
  room_round :: string
  deck :: "card list option"
  communityCards :: "card list option"

record player =
  player_id :: string
  roomId :: string
  socketId :: string
  player_name :: string
  chips :: int
  hand :: "card list option"
  isConnected :: bool
  isReady :: bool
  hasActed :: bool
  player_currentBet :: int
  position :: "int option"
  isFolded :: bool

record insertRoom =
  ir_code :: string
  ir_hostId :: string
  ir_maxPlayers :: int

record insertPlayer =
  ip_roomId :: string
  ip_socketId :: string
  ip_name :: string
  ip_chips :: int

record roomUpdates =
  u_gameState :: "string option"
  u_round :: "string option"
  u_pot :: "int option"
  u_currentBet :: "int option"
  u_deck :: "card list option"
  u_communityCards :: "card list option"

text \<open>
  History kept beside the store, not part of the source: every \<^verbatim>\<open>updatePlayerBet\<close> that
  finds its player records the player's room and the amount, and every successful
  \<^verbatim>\<open>dealCards\<close> records the room. It exists only so that properties of a whole betting
  sequence can be stated.
\<close>

datatype event = Bet string int | Deal string

text \<open>
  \<^verbatim>\<open>MemStorage\<close>. A JavaScript \<^verbatim>\<open>Map\<close> iterates in insertion order, \<^verbatim>\<open>set\<close> on a present
  key keeps its place and \<^verbatim>\<open>set\<close> on a new key appends: an association list with
  \<open>AList.update\<close> and \<open>AList.delete\<close>. The \<^verbatim>\<open>users\<close> map is not used by the game.
\<close>

record store =
  rooms :: "(string \<times> room) list"
  players :: "(string \<times> player) list"
  playersBySocket :: "(string \<times> string) list"
  playersByRoom :: "(string \<times> string list) list"
  betLog :: "event list"

definition emptyStore :: store where
  "emptyStore = \<lparr>rooms = [], players = [], playersBySocket = [], playersByRoom = [], betLog = []\<rparr>"

subsection \<open>Room methods\<close>

definition getRoomById :: "store \<Rightarrow> string \<Rightarrow> room option" where
  "getRoomById s i = map_of (rooms s) i"

definition getRoomByCode :: "store \<Rightarrow> string \<Rightarrow> room option" where
  "getRoomByCode s c = find (\<lambda>room. code room = c) (map snd (rooms s))"

text \<open>\<open>i\<close> is the result of \<^verbatim>\<open>randomUUID()\<close>.\<close>

definition storage_createRoom :: "string \<Rightarrow> insertRoom \<Rightarrow> store \<Rightarrow> room \<times> store" where
  "storage_createRoom i ir s =
     (let room = \<lparr>room_id = i, code = ir_code ir, hostId = ir_hostId ir,
                  maxPlayers = ir_maxPlayers ir, currentPlayers = 0, gameState = ''waiting'',
                  pot = 0, room_currentBet = 0, room_round = ''pre-flop'', deck = None,
                  communityCards = None\<rparr>
      in (room, s\<lparr>rooms := AList.update i room (rooms s),
                  playersByRoom := AList.update i [] (playersByRoom s)\<rparr>))"

definition deleteRoom :: "string \<Rightarrow> store \<Rightarrow> store" where
  "deleteRoom i s =
     s\<lparr>rooms := AList.delete i (rooms s), playersByRoom := AList.delete i (playersByRoom s)\<rparr>"

definition updateRoomPlayerCount :: "string \<Rightarrow> int \<Rightarrow> store \<Rightarrow> store" where
  "updateRoomPlayerCount i count s =
     (case map_of (rooms s) i of
        None \<Rightarrow> s
      | Some room \<Rightarrow> s\<lparr>rooms := AList.update i (room\<lparr>currentPlayers := count\<rparr>) (rooms s)\<rparr>)"

text \<open>\<^verbatim>\<open>Object.assign(room, updates)\<close>: a field absent from the updates keeps its value.\<close>

definition assignUpdates :: "room \<Rightarrow> roomUpdates \<Rightarrow> room" where
  "assignUpdates room u =
     room\<lparr>gameState := (case u_gameState u of None \<Rightarrow> gameState room | Some v \<Rightarrow> v),
          room_round := (case u_round u of None \<Rightarrow> room_round room | Some v \<Rightarrow> v),
          pot := (case u_pot u of None \<Rightarrow> pot room | Some v \<Rightarrow> v),
          room_currentBet := (case u_currentBet u of None \<Rightarrow> room_currentBet room | Some v \<Rightarrow> v),
          deck := (case u_deck u of None \<Rightarrow> deck room | Some v \<Rightarrow> Some v),
          communityCards :=
            (case u_communityCards u of None \<Rightarrow> communityCards room | Some v \<Rightarrow> Some v)\<rparr>"

definition updateRoomGameState :: "string \<Rightarrow> roomUpdates \<Rightarrow> store \<Rightarrow> store" where
  "updateRoomGameState i u s =
     (case map_of (rooms s) i of
        None \<Rightarrow> s
      | Some room \<Rightarrow> s\<lparr>rooms := AList.update i (assignUpdates room u) (rooms s)\<rparr>)"

definition updateRoomCurrentBet :: "string \<Rightarrow> int \<Rightarrow> store \<Rightarrow> store" where
  "updateRoomCurrentBet i bet s =
     (case map_of (rooms s) i of
        None \<Rightarrow> s
      | Some room \<Rightarrow> s\<lparr>rooms := AList.update i (room\<lparr>room_currentBet := bet\<rparr>) (rooms s)\<rparr>)"

subsection \<open>Player methods\<close>

definition getPlayerById :: "store \<Rightarrow> string \<Rightarrow> player option" where
  "getPlayerById s i = map_of (players s) i"

text \<open>\<^verbatim>\<open>playerId ? this.players.get(playerId) : undefined\<close>: the empty string is falsy.\<close>

definition getPlayerBySocketId :: "store \<Rightarrow> string \<Rightarrow> player option" where
  "getPlayerBySocketId s sock =
     (case map_of (playersBySocket s) sock of
        None \<Rightarrow> None
      | Some playerId \<Rightarrow> if playerId = [] then None else map_of (players s) playerId)"

definition roomPlayerIds :: "store \<Rightarrow> string \<Rightarrow> string list" where
  "roomPlayerIds s rid = (case map_of (playersByRoom s) rid of None \<Rightarrow> [] | Some ids \<Rightarrow> ids)"

definition getPlayersByRoomId :: "store \<Rightarrow> string \<Rightarrow> player list" where
  "getPlayersByRoomId s rid = List.map_filter (map_of (players s)) (roomPlayerIds s rid)"

text \<open>\<open>i\<close> is the result of \<^verbatim>\<open>randomUUID()\<close>.\<close>

definition createPlayer :: "string \<Rightarrow> insertPlayer \<Rightarrow> store \<Rightarrow> player \<times> store" where
  "createPlayer i ip s =
     (let player = \<lparr>player_id = i, roomId = ip_roomId ip, socketId = ip_socketId ip,
                    player_name = ip_name ip, chips = ip_chips ip, hand = None,
                    isConnected = True, isReady = False, hasActed = False,
                    player_currentBet = 0, position = None, isFolded = False\<rparr>
      in (player,
          s\<lparr>players := AList.update i player (players s),
            playersBySocket := AList.update (ip_socketId ip) i (playersBySocket s),
            playersByRoom :=
              AList.update (ip_roomId ip) (roomPlayerIds s (ip_roomId ip) @ [i]) (playersByRoom s)\<rparr>))"

definition removePlayer :: "string \<Rightarrow> store \<Rightarrow> store" where
  "removePlayer i s =
     (case map_of (players s) i of
        None \<Rightarrow> s
      | Some player \<Rightarrow>
          s\<lparr>playersBySocket := AList.delete (socketId player) (playersBySocket s),
            playersByRoom :=
              AList.update (roomId player)
                (filter (\<lambda>pid. pid \<noteq> i) (roomPlayerIds s (roomId player))) (playersByRoom s),
            players := AList.delete i (players s)\<rparr>)"

definition setPlayerConnected :: "string \<Rightarrow> bool \<Rightarrow> store \<Rightarrow> store" where
  "setPlayerConnected sock connected s =
     (case map_of (playersBySocket s) sock of
        None \<Rightarrow> s
      | Some playerId \<Rightarrow>
          if playerId = [] then s
          else (case map_of (players s) playerId of
                  None \<Rightarrow> s
                | Some player \<Rightarrow>
                    s\<lparr>players :=
                        AList.update playerId (player\<lparr>isConnected := connected\<rparr>) (players s)\<rparr>))"

definition setPlayerReady :: "string \<Rightarrow> bool \<Rightarrow> store \<Rightarrow> store" where
  "setPlayerReady sock ready s =
     (case map_of (playersBySocket s) sock of
        None \<Rightarrow> s
      | Some playerId \<Rightarrow>
          if playerId = [] then s
          else (case map_of (players s) playerId of
                  None \<Rightarrow> s
                | Some player \<Rightarrow>
                    s\<lparr>players := AList.update playerId (player\<lparr>isReady := ready\<rparr>) (players s)\<rparr>))"

definition setPlayerHasActed :: "string \<Rightarrow> bool \<Rightarrow> store \<Rightarrow> store" where
  "setPlayerHasActed i acted s =
     (case map_of (players s) i of
        None \<Rightarrow> s
      | Some player \<Rightarrow> s\<lparr>players := AList.update i (player\<lparr>hasActed := acted\<rparr>) (players s)\<rparr>)"

definition setPlayerFolded :: "string \<Rightarrow> bool \<Rightarrow> store \<Rightarrow> store" where
  "setPlayerFolded i folded s =
     (case map_of (players s) i of
        None \<Rightarrow> s
      | Some player \<Rightarrow> s\<lparr>players := AList.update i (player\<lparr>isFolded := folded\<rparr>) (players s)\<rparr>)"

definition setPlayerHand :: "string \<Rightarrow> card list \<Rightarrow> store \<Rightarrow> store" where
  "setPlayerHand i cards s =
     (case map_of (players s) i of
        None \<Rightarrow> s
      | Some player \<Rightarrow> s\<lparr>players := AList.update i (player\<lparr>hand := Some cards\<rparr>) (players s)\<rparr>)"

text \<open>
  \<^verbatim>\<open>updatePlayerBet\<close> moves \<^verbatim>\<open>additionalBet\<close> from the player's chips to the player's
  bet and, when the player's room exists, adds it to the room's pot. The numbers are
  integers here; \<open>updatePlayerBet_js\<close> below is the method on doubles.
\<close>

definition updatePlayerBet :: "string \<Rightarrow> int \<Rightarrow> store \<Rightarrow> store" where
  "updatePlayerBet i additionalBet s =
     (case map_of (players s) i of
        None \<Rightarrow> s
      | Some player \<Rightarrow>
          (let s1 = s\<lparr>players :=
                        AList.update i
                          (player\<lparr>player_currentBet := player_currentBet player + additionalBet,
                                  chips := chips player - additionalBet\<rparr>) (players s),
                      betLog := betLog s @ [Bet (roomId player) additionalBet]\<rparr>
           in (case map_of (rooms s1) (roomId player) of
                 None \<Rightarrow> s1
               | Some room \<Rightarrow>
                   s1\<lparr>rooms :=
                        AList.update (roomId player) (room\<lparr>pot := pot room + additionalBet\<rparr>)
                          (rooms s1)\<rparr>)))"

section \<open>The game manager\<close>

text \<open>
  Every method of \<^verbatim>\<open>PokerGameManager\<close> returns an object with a \<^verbatim>\<open>success\<close> flag and
  either a payload or an \<^verbatim>\<open>error\<close> text. The storage methods never throw, so the
  \<^verbatim>\<open>catch\<close> branches are not reached and have no counterpart here.
\<close>

datatype 'a result = Failure string | Success 'a

record playerState =
  ps_id :: string
  ps_name :: string
  ps_chips :: int
  ps_hand :: "card list"
  ps_currentBet :: int
  ps_isConnected :: bool
  ps_isReady :: bool
  ps_hasActed :: bool
  ps_isFolded :: bool
  ps_position :: int

definition mapToPlayerState :: "player \<Rightarrow> playerState" where
  "mapToPlayerState player =
     \<lparr>ps_id = player_id player, ps_name = player_name player, ps_chips = chips player,
      ps_hand = (case hand player of None \<Rightarrow> [] | Some cards \<Rightarrow> cards),
      ps_currentBet = player_currentBet player, ps_isConnected = isConnected player,
      ps_isReady = isReady player, ps_hasActed = hasActed player, ps_isFolded = isFolded player,
      ps_position = (case position player of None \<Rightarrow> 0 | Some n \<Rightarrow> n)\<rparr>"

text \<open>
  The storage hands out the objects held in its maps, not copies: the \<^verbatim>\<open>player\<close> and
  \<^verbatim>\<open>room\<close> of a manager method are the stored objects, and a field read after a storage
  call sees what that call wrote. \<open>playerKey\<close> is the key under which
  \<^verbatim>\<open>getPlayerBySocketId\<close> found its object; \<open>readPlayer s k player\<close> and
  \<open>readRoom s k room\<close> are the present state of the object fetched under key \<open>k\<close>
  (an object no longer in the map is as it was).
\<close>

definition playerKey :: "store \<Rightarrow> string \<Rightarrow> string" where
  "playerKey s sock = (case map_of (playersBySocket s) sock of None \<Rightarrow> [] | Some k \<Rightarrow> k)"

definition readPlayer :: "store \<Rightarrow> string \<Rightarrow> player \<Rightarrow> player" where
  "readPlayer s k player = (case map_of (players s) k of None \<Rightarrow> player | Some p \<Rightarrow> p)"

definition readRoom :: "store \<Rightarrow> string \<Rightarrow> room \<Rightarrow> room" where
  "readRoom s k room = (case map_of (rooms s) k of None \<Rightarrow> room | Some r \<Rightarrow> r)"

text \<open>
  \<^verbatim>\<open>createRoom\<close>. \<open>codes\<close> lists the successive results of \<^verbatim>\<open>generateRoomCode()\<close>; the
  \<^verbatim>\<open>while\<close> loop takes the first one that no room carries. The result is \<open>None\<close> when
  every listed code is taken: the loop has not ended on these draws. \<open>roomUuid\<close> and
  \<open>playerUuid\<close> are the results of \<^verbatim>\<open>randomUUID()\<close> in the two storage calls.
\<close>

definition createRoom ::
  "string list \<Rightarrow> string \<Rightarrow> string \<Rightarrow> string \<Rightarrow> string \<Rightarrow> store
     \<Rightarrow> ((string \<times> string) result \<times> store) option" where
  "createRoom codes roomUuid playerUuid sock playerName s =
     (case find (\<lambda>c. getRoomByCode s c = None) codes of
        None \<Rightarrow> None
      | Some roomCode \<Rightarrow>
          (let (room, s1) =
                 storage_createRoom roomUuid
                   \<lparr>ir_code = roomCode, ir_hostId = sock, ir_maxPlayers = 6\<rparr> s;
               (player, s2) =
                 createPlayer playerUuid
                   \<lparr>ip_roomId = room_id room, ip_socketId = sock, ip_name = playerName,
                    ip_chips = 1000\<rparr> s1;
               s3 = updateRoomPlayerCount (room_id room) 1 s2
           in Some (Success (roomCode, player_id player), s3)))"

definition joinRoom ::
  "string \<Rightarrow> string \<Rightarrow> string \<Rightarrow> string \<Rightarrow> store
     \<Rightarrow> (string \<times> playerState) result \<times> store" where
  "joinRoom playerUuid sock playerName roomCode s =
     (case getRoomByCode s roomCode of
        None \<Rightarrow> (Failure ''Room not found'', s)
      | Some room \<Rightarrow>
          if currentPlayers room \<ge> maxPlayers room then (Failure ''Room is full'', s)
          else
            (case (case getPlayerBySocketId s sock of
                     None \<Rightarrow> None
                   | Some e \<Rightarrow> if roomId e = room_id room then Some e else None) of
               Some existingPlayer \<Rightarrow>
                 (let s1 = setPlayerConnected sock True s
                  in (Success (player_id existingPlayer,
                               mapToPlayerState (readPlayer s1 (playerKey s sock) existingPlayer)),
                      s1))
             | None \<Rightarrow>
                 (let (player, s1) =
                        createPlayer playerUuid
                          \<lparr>ip_roomId = room_id room, ip_socketId = sock, ip_name = playerName,
                           ip_chips = 1000\<rparr> s;
                      s2 = updateRoomPlayerCount (room_id room) (currentPlayers room + 1) s1
                  in (Success (player_id player, mapToPlayerState player), s2))))"

definition leaveRoom :: "string \<Rightarrow> store \<Rightarrow> unit result \<times> store" where
  "leaveRoom sock s =
     (case getPlayerBySocketId s sock of
        None \<Rightarrow> (Failure ''Player not found'', s)
      | Some player \<Rightarrow>
          (case getRoomById s (roomId player) of
             None \<Rightarrow> (Failure ''Room not found'', s)
           | Some room \<Rightarrow>
               (let k = roomId player;
                    s1 = removePlayer (player_id player) s;
                    s2 = updateRoomPlayerCount (room_id room)
                           (max 0 (currentPlayers (readRoom s1 k room) - 1)) s1
                in if currentPlayers (readRoom s2 k room) \<le> 1
                   then (Success (), deleteRoom (room_id room) s2)
                   else (Success (), s2))))"

text \<open>
  The loop of \<^verbatim>\<open>dealCards\<close>: \<^verbatim>\<open>deck.splice(0, 4)\<close> removes the first four cards of the
  deck (fewer when fewer are left) and returns them.
\<close>

fun dealLoop :: "player list \<Rightarrow> card list \<Rightarrow> store \<Rightarrow> card list \<times> store" where
  "dealLoop [] cards s = (cards, s)"
| "dealLoop (player # rest) cards s =
     dealLoop rest (drop 4 cards) (setPlayerHand (player_id player) (take 4 cards) s)"

definition dealCards ::
  "(nat \<Rightarrow> string) \<Rightarrow> (nat \<Rightarrow> nat) \<Rightarrow> string \<Rightarrow> store \<Rightarrow> unit result \<times> store" where
  "dealCards uuid rand rid s =
     (case getRoomById s rid of
        None \<Rightarrow> (Failure ''Room not found'', s)
      | Some room \<Rightarrow>
          (let ps = getPlayersByRoomId s rid in
           if length ps < 2 then (Failure ''Need at least 2 players to deal cards'', s)
           else
             (let (deck', s1) = dealLoop ps (createDeck uuid rand) s;
                  s2 = updateRoomGameState (room_id room)
                         \<lparr>u_gameState = Some ''playing'', u_round = Some ''pre-flop'',
                          u_pot = Some 0, u_currentBet = Some 0, u_deck = Some deck',
                          u_communityCards = Some []\<rparr> s1
              in (Success (), s2\<lparr>betLog := betLog s2 @ [Deal (room_id room)]\<rparr>))))"

text \<open>
  \<^verbatim>\<open>handlePlayerAction\<close>. \<open>amount\<close> is \<open>None\<close> when the caller passes none, and an
  integer otherwise, as the chips it is compared with; \<^verbatim>\<open>!amount\<close> holds for a missing
  amount and for 0. In the all-in case \<^verbatim>\<open>player.chips\<close> and \<^verbatim>\<open>room.currentBet\<close> are
  read after \<^verbatim>\<open>updatePlayerBet\<close> and \<^verbatim>\<open>setPlayerHasActed\<close> have run.
  \<open>handlePlayerAction_js\<close> below is the method for amounts that are any doubles.
\<close>

definition handlePlayerAction ::
  "string \<Rightarrow> string \<Rightarrow> int option \<Rightarrow> store \<Rightarrow> unit result \<times> store" where
  "handlePlayerAction sock action amount s =
     (case getPlayerBySocketId s sock of
        None \<Rightarrow> (Failure ''Player not found'', s)
      | Some player \<Rightarrow>
          (case getRoomById s (roomId player) of
             None \<Rightarrow> (Failure ''Room not found'', s)
           | Some room \<Rightarrow>
               if action = ''fold'' then
                 (Success (), setPlayerFolded (player_id player) True s)
               else if action = ''check'' then
                 (if room_currentBet room > player_currentBet player
                  then (Failure ''Cannot check when there is a bet to call'', s)
                  else (Success (), setPlayerHasActed (player_id player) True s))
               else if action = ''call'' then
                 (let callAmount = room_currentBet room - player_currentBet player in
                  if callAmount > chips player
                  then (Failure ''Insufficient chips to call'', s)
                  else (Success (),
                        setPlayerHasActed (player_id player) True
                          (updatePlayerBet (player_id player) callAmount s)))
               else if action = ''raise'' then
                 (case (case amount of
                          None \<Rightarrow> None
                        | Some a \<Rightarrow> if a = 0 \<or> a \<le> room_currentBet room then None else Some a) of
                    None \<Rightarrow> (Failure ''Raise amount must be greater than current bet'', s)
                  | Some a \<Rightarrow>
                      if a > chips player
                      then (Failure ''Insufficient chips to raise'', s)
                      else (Success (),
                            setPlayerHasActed (player_id player) True
                              (updateRoomCurrentBet (room_id room) a
                                 (updatePlayerBet (player_id player)
                                    (a - player_currentBet player) s))))
               else if action = ''all-in'' then
                 (let s1 = updatePlayerBet (player_id player) (chips player) s;
                      s2 = setPlayerHasActed (player_id player) True s1;
                      player' = readPlayer s2 (playerKey s sock) player;
                      room' = readRoom s2 (roomId player) room
                  in if chips player' > room_currentBet room'
                     then (Success (), updateRoomCurrentBet (room_id room) (chips player') s2)
                     else (Success (), s2))
               else (Failure ''Invalid action'', s)))"

definition manager_setPlayerReady :: "string \<Rightarrow> bool \<Rightarrow> store \<Rightarrow> store" where
  "manager_setPlayerReady sock ready s = setPlayerReady sock ready s"

definition manager_setPlayerConnected :: "string \<Rightarrow> bool \<Rightarrow> store \<Rightarrow> store" where
  "manager_setPlayerConnected sock connected s = setPlayerConnected sock connected s"

section \<open>Requests and reachable stores\<close>

text \<open>
  One request is one call of a public method of the manager that can change the store,
  together with the random draws the call makes. The gateway runs each call to its end
  before it starts the next one.
\<close>

datatype request =
    CreateRoom "string list" string string string string
  | JoinRoom string string string string
  | LeaveRoom string
  | DealCards "nat \<Rightarrow> string" "nat \<Rightarrow> nat" string
  | HandlePlayerAction string string "int option"
  | SetPlayerReady string bool
  | SetPlayerConnected string bool

fun step :: "request \<Rightarrow> store \<Rightarrow> store option" where
  "step (CreateRoom codes roomUuid playerUuid sock playerName) s =
     map_option snd (createRoom codes roomUuid playerUuid sock playerName s)"
| "step (JoinRoom playerUuid sock playerName roomCode) s =
     Some (snd (joinRoom playerUuid sock playerName roomCode s))"
| "step (LeaveRoom sock) s = Some (snd (leaveRoom sock s))"
| "step (DealCards uuid rand rid) s = Some (snd (dealCards uuid rand rid s))"
| "step (HandlePlayerAction sock action amount) s =
     Some (snd (handlePlayerAction sock action amount s))"
| "step (SetPlayerReady sock ready) s = Some (manager_setPlayerReady sock ready s)"
| "step (SetPlayerConnected sock connected) s =
     Some (manager_setPlayerConnected sock connected s)"

fun eventRoom :: "event \<Rightarrow> string" where
  "eventRoom (Bet rid delta) = rid"
| "eventRoom (Deal rid) = rid"

text \<open>
  \<^verbatim>\<open>randomUUID()\<close> returns an identifier that has not been used: it names no room and no
  player of the store, no player refers to it as its room, and the history does not
  mention it.
\<close>

definition freshUuid :: "store \<Rightarrow> string \<Rightarrow> bool" where
  "freshUuid s u =
     (u \<notin> set (map fst (rooms s)) \<and> u \<notin> set (map fst (players s)) \<and>
      u \<notin> set (map (roomId \<circ> snd) (players s)) \<and> u \<notin> set (map eventRoom (betLog s)))"

fun freshDraws :: "request \<Rightarrow> store \<Rightarrow> bool" where
  "freshDraws (CreateRoom codes roomUuid playerUuid sock playerName) s =
     (freshUuid s roomUuid \<and> freshUuid s playerUuid)"
| "freshDraws (JoinRoom playerUuid sock playerName roomCode) s = freshUuid s playerUuid"
| "freshDraws (LeaveRoom sock) s = True"
| "freshDraws (DealCards uuid rand rid) s = True"
| "freshDraws (HandlePlayerAction sock action amount) s = True"
| "freshDraws (SetPlayerReady sock ready) s = True"
| "freshDraws (SetPlayerConnected sock connected) s = True"

inductive reachable :: "store \<Rightarrow> bool" where
  reachable_empty: "reachable emptyStore"
| reachable_step: "reachable s \<Longrightarrow> freshDraws req s \<Longrightarrow> step req s = Some s' \<Longrightarrow> reachable s'"

text \<open>
  The bets recorded for room \<open>rid\<close> since its last deal: going through the history in
  order, a deal of the room starts the sum again and a bet of the room adds to it.
\<close>

definition betsSinceDeal :: "string \<Rightarrow> event list \<Rightarrow> int" where
  "betsSinceDeal rid log =
     foldl (\<lambda>acc e. case e of
                      Bet r delta \<Rightarrow> if r = rid then acc + delta else acc
                    | Deal r \<Rightarrow> if r = rid then 0 else acc) 0 log"

text \<open>The chips held by a list of players.\<close>

definition chipsOf :: "player list \<Rightarrow> int" where
  "chipsOf ps = sum_list (map chips ps)"

text \<open>
  What holds of every store the manager can build: keys are the identifiers of the
  objects they lead to, room codes are unique, a room's count is the length of its list
  of players, which has no duplicates and lists exactly the room's players, bets and
  chips are not negative, a room's pot is the sum of the bets recorded since its last deal,
  and a socket leads to a player created for it.
\<close>

definition wfRoom :: "store \<Rightarrow> string \<Rightarrow> room \<Rightarrow> bool" where
  "wfRoom s k r =
     (room_id r = k \<and> maxPlayers r = 6 \<and> currentPlayers r \<le> 6 \<and> 0 \<le> room_currentBet r \<and>
      distinct (roomPlayerIds s k) \<and> int (length (roomPlayerIds s k)) = currentPlayers r \<and>
      (\<forall>pid \<in> set (roomPlayerIds s k).
         case map_of (players s) pid of None \<Rightarrow> False | Some p \<Rightarrow> roomId p = k) \<and>
      pot r = betsSinceDeal k (betLog s) \<and>
      (\<forall>(k', r') \<in> set (rooms s). code r' = code r \<longrightarrow> k' = k))"

definition wfPlayer :: "store \<Rightarrow> string \<Rightarrow> player \<Rightarrow> bool" where
  "wfPlayer s k p =
     (player_id p = k \<and> 0 \<le> chips p \<and> 0 \<le> player_currentBet p \<and>
      (map_of (rooms s) (roomId p) \<noteq> None \<longrightarrow> k \<in> set (roomPlayerIds s (roomId p))))"

definition wfSocket :: "store \<Rightarrow> string \<Rightarrow> string \<Rightarrow> bool" where
  "wfSocket s sock k =
     (case map_of (players s) k of None \<Rightarrow> False | Some p \<Rightarrow> socketId p = sock)"

definition wf :: "store \<Rightarrow> bool" where
  "wf s =
     (distinct (map fst (rooms s)) \<and> distinct (map fst (players s)) \<and>
      distinct (map fst (playersBySocket s)) \<and>
      (\<forall>(k, r) \<in> set (rooms s). wfRoom s k r) \<and>
      (\<forall>(k, p) \<in> set (players s). wfPlayer s k p) \<and>
      (\<forall>(sock, k) \<in> set (playersBySocket s). wfSocket s sock k))"

text \<open>The room and the player that \<^verbatim>\<open>createRoom\<close> and \<^verbatim>\<open>joinRoom\<close> leave in the store.\<close>

definition newRoom :: "string \<Rightarrow> string \<Rightarrow> string \<Rightarrow> room" where
  "newRoom i c h = \<lparr>room_id = i, code = c, hostId = h, maxPlayers = 6, currentPlayers = 1,
     gameState = ''waiting'', pot = 0, room_currentBet = 0, room_round = ''pre-flop'', deck = None,
     communityCards = None\<rparr>"

definition newPlayer :: "string \<Rightarrow> string \<Rightarrow> string \<Rightarrow> string \<Rightarrow> player" where
  "newPlayer i r sock n = \<lparr>player_id = i, roomId = r, socketId = sock, player_name = n,
     chips = 1000, hand = None, isConnected = True, isReady = False, hasActed = False,
     player_currentBet = 0, position = None, isFolded = False\<rparr>"

section \<open>Concrete stores\<close>

text \<open>
  A table of two: alice (socket \<open>sockA\<close>) has created the room with code \<open>ABC123\<close> and
  bob (socket \<open>sockB\<close>) has joined it.
\<close>

definition alice :: player where
  "alice = \<lparr>player_id = ''p1'', roomId = ''r1'', socketId = ''sockA'', player_name = ''alice'',
            chips = 1000, hand = None, isConnected = True, isReady = False, hasActed = False,
            player_currentBet = 0, position = None, isFolded = False\<rparr>"

definition bob :: player where
  "bob = \<lparr>player_id = ''p2'', roomId = ''r1'', socketId = ''sockB'', player_name = ''bob'',
          chips = 1000, hand = None, isConnected = True, isReady = False, hasActed = False,
          player_currentBet = 0, position = None, isFolded = False\<rparr>"

definition table :: room where
  "table = \<lparr>room_id = ''r1'', code = ''ABC123'', hostId = ''sockA'', maxPlayers = 6,
            currentPlayers = 2, gameState = ''waiting'', pot = 0, room_currentBet = 0,
            room_round = ''pre-flop'', deck = None, communityCards = None\<rparr>"

definition tableOfTwo :: store where
  "tableOfTwo =
     \<lparr>rooms = [(''r1'', table)], players = [(''p1'', alice), (''p2'', bob)],
      playersBySocket = [(''sockA'', ''p1''), (''sockB'', ''p2'')],
      playersByRoom = [(''r1'', [''p1'', ''p2''])], betLog = []\<rparr>"

definition tableOfTwoRequests :: "request list" where
  "tableOfTwoRequests =
     [CreateRoom [''ABC123''] ''r1'' ''p1'' ''sockA'' ''alice'',
      JoinRoom ''p2'' ''sockB'' ''bob'' ''ABC123'']"

text \<open>The same table after alice has raised to 100.\<close>

definition raisedRequests :: "request list" where
  "raisedRequests = tableOfTwoRequests @ [HandlePlayerAction ''sockA'' ''raise'' (Some 100)]"

definition raisedTable :: store where
  "raisedTable =
     \<lparr>rooms = [(''r1'', table\<lparr>pot := 100, room_currentBet := 100\<rparr>)],
      players = [(''p1'', alice\<lparr>chips := 900, player_currentBet := 100, hasActed := True\<rparr>),
                 (''p2'', bob)],
      playersBySocket = [(''sockA'', ''p1''), (''sockB'', ''p2'')],
      playersByRoom = [(''r1'', [''p1'', ''p2''])], betLog = [Bet ''r1'' 100]\<rparr>"


definition playedTable :: store where
  "playedTable =
     \<lparr>rooms = [(''r1'', table\<lparr>pot := 100, room_currentBet := 100\<rparr>)],
      players = [(''p1'', alice\<lparr>chips := 900, player_currentBet := 100, hasActed := True\<rparr>),
                 (''p2'', bob\<lparr>isFolded := True\<rparr>)],
      playersBySocket = [(''sockA'', ''p1''), (''sockB'', ''p2'')],
      playersByRoom = [(''r1'', [''p1'', ''p2''])], betLog = [Bet ''r1'' 100]\<rparr>"

text \<open>A table of three, and the full table of six.\<close>

definition tableOfThreeRequests :: "request list" where
  "tableOfThreeRequests = tableOfTwoRequests @ [JoinRoom ''p3'' ''sockC'' ''carol'' ''ABC123'']"

definition tableOfThree :: store where
  "tableOfThree =
     \<lparr>rooms = [(''r1'', table\<lparr>currentPlayers := 3\<rparr>)],
      players = [(''p1'', alice), (''p2'', bob),
                 (''p3'', newPlayer ''p3'' ''r1'' ''sockC'' ''carol'')],
      playersBySocket = [(''sockA'', ''p1''), (''sockB'', ''p2''), (''sockC'', ''p3'')],
      playersByRoom = [(''r1'', [''p1'', ''p2'', ''p3''])], betLog = []\<rparr>"

definition fullRequests :: "request list" where
  "fullRequests = tableOfTwoRequests @
     [JoinRoom ''p3'' ''sockC'' ''carol'' ''ABC123'', JoinRoom ''p4'' ''sockD'' ''dave'' ''ABC123'',
      JoinRoom ''p5'' ''sockE'' ''erin'' ''ABC123'', JoinRoom ''p6'' ''sockF'' ''frank'' ''ABC123'']"

definition fullTable :: store where
  "fullTable =
     \<lparr>rooms = [(''r1'', table\<lparr>currentPlayers := 6\<rparr>)],
      players = [(''p1'', alice), (''p2'', bob),
                 (''p3'', newPlayer ''p3'' ''r1'' ''sockC'' ''carol''),
                 (''p4'', newPlayer ''p4'' ''r1'' ''sockD'' ''dave''),
                 (''p5'', newPlayer ''p5'' ''r1'' ''sockE'' ''erin''),
                 (''p6'', newPlayer ''p6'' ''r1'' ''sockF'' ''frank'')],
      playersBySocket = [(''sockA'', ''p1''), (''sockB'', ''p2''), (''sockC'', ''p3''),
                         (''sockD'', ''p4''), (''sockE'', ''p5''), (''sockF'', ''p6'')],
      playersByRoom = [(''r1'', [''p1'', ''p2'', ''p3'', ''p4'', ''p5'', ''p6''])],
      betLog = []\<rparr>"

text \<open>
  Draws for a deal: every card gets the same text in place of its random identifier, and
  the shuffle draws \<open>j = i\<close> at every step, which leaves the deck in the order it was built.
\<close>

definition noUuid :: "nat \<Rightarrow> string" where
  "noUuid k = ''u''"

definition noShuffle :: "nat \<Rightarrow> nat" where
  "noShuffle i = i"

text \<open>The stores after a deal at the table of two and at the table where both have acted.\<close>

definition dealtOfTwo :: store where
  "dealtOfTwo = snd (dealCards noUuid noShuffle ''r1'' tableOfTwo)"

definition dealtPlayed :: store where
  "dealtPlayed = snd (dealCards noUuid noShuffle ''r1'' playedTable)"



text \<open>
  Running requests one after the other; \<open>None\<close> when one of them does not return or
  draws an identifier that is not fresh.
\<close>

fun run :: "request list \<Rightarrow> store \<Rightarrow> store option" where
  "run [] s = Some s"
| "run (req # reqs) s =
     (if freshDraws req s then (case step req s of None \<Rightarrow> None | Some s' \<Rightarrow> run reqs s')
      else None)"

text \<open>
  The chips of a room: its pot and the chips of the players seated in it; \<open>None\<close> when
  there is no such room.
\<close>

definition roomTotal :: "store \<Rightarrow> string \<Rightarrow> int option" where
  "roomTotal s k =
     (case getRoomById s k of
        None \<Rightarrow> None
      | Some r \<Rightarrow> Some (pot r + chipsOf (getPlayersByRoomId s k)))"

section \<open>The numbers of the program\<close>

text \<open>
  Chips, bets and pots are JavaScript numbers, that is IEEE 754 doubles, and the gateway
  lets any number through as the amount of an action (\<^verbatim>\<open>amount: z.number().optional()\<close>):
  an amount can be a fraction. \<^verbatim>\<open>updatePlayerBet\<close> and \<^verbatim>\<open>handlePlayerAction\<close> above add
  and subtract integers. This section has the two methods once more, with the sums and
  differences of doubles; the two versions agree on stores and amounts of small integers
  (\<open>handlePlayerAction_js_small\<close> below).

  Every finite double is a whole multiple of the smallest positive double,
  \<^verbatim>\<open>2 ** -1074\<close>. A double is written here as that multiple, an \<open>int\<close>: \<open>ofInteger n\<close>
  is the integer \<open>n\<close>, and \<open>3602879701896397 * 2 ^ 1019\<close> is
  \<^verbatim>\<open>3602879701896397 / 2 ** 55\<close>, the double that the literal \<^verbatim>\<open>0.1\<close> denotes. The order
  and the sums of the multiples are the order and the exact sums of the doubles; the two
  zeros are the multiple 0, the only falsy one.

  A double has 53 significant bits: among the multiples with \<open>k\<close> bits, the doubles are
  all of them when \<open>k \<le> 53\<close> and the multiples of \<open>2 ^ (k - 53)\<close> otherwise. The result
  of \<^verbatim>\<open>+\<close> and \<^verbatim>\<open>-\<close> is the exact result rounded to the nearest double, and to the one
  with the even last bit when two are equally near. \<open>roundToDouble\<close> has no infinity:
  beyond the largest double, where the program yields \<^verbatim>\<open>Infinity\<close>, it goes on rounding
  to 53 bits. The numbers of the statements below are far from there.
\<close>

function bitLength :: "int \<Rightarrow> int" where
  "bitLength n = (if n \<le> 0 then 0 else 1 + bitLength (n div 2))"
  by pat_completeness auto
termination by (relation "measure nat") auto

declare bitLength.simps [simp del]

text \<open>
  \<open>nearestInteger q r b\<close> is the integer nearest to \<open>q + r / b\<close> for \<open>0 \<le> r < b\<close>, the
  even one of \<open>q\<close> and \<open>q + 1\<close> when \<open>r / b\<close> is one half; \<open>roundAt e n\<close> is the multiple
  of \<open>2 ^ e\<close> nearest to \<open>n\<close>.
\<close>

definition nearestInteger :: "int \<Rightarrow> int \<Rightarrow> int \<Rightarrow> int" where
  "nearestInteger q r b =
     (if 2 * r < b then q else if b < 2 * r then q + 1 else if even q then q else q + 1)"

definition roundAt :: "nat \<Rightarrow> int \<Rightarrow> int" where
  "roundAt e n = nearestInteger (n div 2 ^ e) (n mod 2 ^ e) (2 ^ e) * 2 ^ e"

definition roundToDouble :: "int \<Rightarrow> int" where
  "roundToDouble n = roundAt (nat (bitLength \<bar>n\<bar> - 53)) n"

definition jsPlus :: "int \<Rightarrow> int \<Rightarrow> int" where
  "jsPlus x y = roundToDouble (x + y)"

definition jsMinus :: "int \<Rightarrow> int \<Rightarrow> int" where
  "jsMinus x y = roundToDouble (x - y)"

definition ofInteger :: "int \<Rightarrow> int" where
  "ofInteger n = n * 2 ^ 1074"

text \<open>
  \<^verbatim>\<open>Number.isSafeInteger\<close>: an integer of magnitude below \<open>2 ^ 53\<close>. \<open>smallInteger\<close>
  leaves two bits of room: the difference of two small integers, added to a third one
  or taken from it, is still safe.
\<close>

definition safeInteger :: "int \<Rightarrow> bool" where
  "safeInteger x = (2 ^ 1074 dvd x \<and> \<bar>x\<bar> < ofInteger (2 ^ 53))"

definition smallInteger :: "int \<Rightarrow> bool" where
  "smallInteger x = (2 ^ 1074 dvd x \<and> \<bar>x\<bar> < ofInteger (2 ^ 51))"

text \<open>The doubles that the literals \<^verbatim>\<open>0.1\<close> and \<^verbatim>\<open>0.3\<close> denote.\<close>

definition tenth :: int where
  "tenth = 3602879701896397 * 2 ^ 1019"

definition threeTenths :: int where
  "threeTenths = 5404319552844595 * 2 ^ 1020"

text \<open>
  \<^verbatim>\<open>updatePlayerBet\<close> and \<^verbatim>\<open>handlePlayerAction\<close> on doubles: \<^verbatim>\<open>+=\<close>, \<^verbatim>\<open>-=\<close> and \<^verbatim>\<open>-\<close> round.
  The comparisons, the test \<^verbatim>\<open>!amount\<close> and the calls are as above.
\<close>

definition updatePlayerBet_js :: "string \<Rightarrow> int \<Rightarrow> store \<Rightarrow> store" where
  "updatePlayerBet_js i additionalBet s =
     (case map_of (players s) i of
        None \<Rightarrow> s
      | Some player \<Rightarrow>
          (let s1 = s\<lparr>players :=
                        AList.update i
                          (player\<lparr>player_currentBet :=
                                    jsPlus (player_currentBet player) additionalBet,
                                  chips := jsMinus (chips player) additionalBet\<rparr>) (players s),
                      betLog := betLog s @ [Bet (roomId player) additionalBet]\<rparr>
           in (case map_of (rooms s1) (roomId player) of
                 None \<Rightarrow> s1
               | Some room \<Rightarrow>
                   s1\<lparr>rooms :=
                        AList.update (roomId player)
                          (room\<lparr>pot := jsPlus (pot room) additionalBet\<rparr>) (rooms s1)\<rparr>)))"

definition handlePlayerAction_js ::
  "string \<Rightarrow> string \<Rightarrow> int option \<Rightarrow> store \<Rightarrow> unit result \<times> store" where
  "handlePlayerAction_js sock action amount s =
     (case getPlayerBySocketId s sock of
        None \<Rightarrow> (Failure ''Player not found'', s)
      | Some player \<Rightarrow>
          (case getRoomById s (roomId player) of
             None \<Rightarrow> (Failure ''Room not found'', s)
           | Some room \<Rightarrow>
               if action = ''fold'' then
                 (Success (), setPlayerFolded (player_id player) True s)
               else if action = ''check'' then
                 (if room_currentBet room > player_currentBet player
                  then (Failure ''Cannot check when there is a bet to call'', s)
                  else (Success (), setPlayerHasActed (player_id player) True s))
               else if action = ''call'' then
                 (let callAmount = jsMinus (room_currentBet room) (player_currentBet player) in
                  if callAmount > chips player
                  then (Failure ''Insufficient chips to call'', s)
                  else (Success (),
                        setPlayerHasActed (player_id player) True
                          (updatePlayerBet_js (player_id player) callAmount s)))
               else if action = ''raise'' then
                 (case (case amount of
                          None \<Rightarrow> None
                        | Some a \<Rightarrow> if a = 0 \<or> a \<le> room_currentBet room then None else Some a) of
                    None \<Rightarrow> (Failure ''Raise amount must be greater than current bet'', s)
                  | Some a \<Rightarrow>
                      if a > chips player
                      then (Failure ''Insufficient chips to raise'', s)
                      else (Success (),
                            setPlayerHasActed (player_id player) True
                              (updateRoomCurrentBet (room_id room) a
                                 (updatePlayerBet_js (player_id player)
                                    (jsMinus a (player_currentBet player)) s))))
               else if action = ''all-in'' then
                 (let s1 = updatePlayerBet_js (player_id player) (chips player) s;
                      s2 = setPlayerHasActed (player_id player) True s1;
                      player' = readPlayer s2 (playerKey s sock) player;
                      room' = readRoom s2 (roomId player) room
                  in if chips player' > room_currentBet room'
                     then (Success (), updateRoomCurrentBet (room_id room) (chips player') s2)
                     else (Success (), s2))
               else (Failure ''Invalid action'', s)))"

text \<open>
  The store of the program that holds the chips, bets and pots of a store of integers:
  every such number \<open>n\<close> is the double \<open>ofInteger n\<close>, in the history as well. The counts
  of players take part in no sum of this section and stay as they are.
\<close>

definition jsPlayer :: "player \<Rightarrow> player" where
  "jsPlayer p = p\<lparr>chips := ofInteger (chips p),
                   player_currentBet := ofInteger (player_currentBet p)\<rparr>"

definition jsRoom :: "room \<Rightarrow> room" where
  "jsRoom r = r\<lparr>pot := ofInteger (pot r), room_currentBet := ofInteger (room_currentBet r)\<rparr>"

fun jsEvent :: "event \<Rightarrow> event" where
  "jsEvent (Bet rid delta) = Bet rid (ofInteger delta)"
| "jsEvent (Deal rid) = Deal rid"

definition jsStore :: "store \<Rightarrow> store" where
  "jsStore s = s\<lparr>rooms := map (\<lambda>(k, r). (k, jsRoom r)) (rooms s),
                  players := map (\<lambda>(k, p). (k, jsPlayer p)) (players s),
                  betLog := map jsEvent (betLog s)\<rparr>"

text \<open>A store and an amount whose chips, bets and pots are small integers.\<close>

definition smallStore :: "store \<Rightarrow> bool" where
  "smallStore s =
     ((\<forall>(k, r) \<in> set (rooms s). smallInteger (pot r) \<and> smallInteger (room_currentBet r)) \<and>
      (\<forall>(k, p) \<in> set (players s). smallInteger (chips p) \<and> smallInteger (player_currentBet p)))"

definition smallAmount :: "int option \<Rightarrow> bool" where
  "smallAmount amount = (case amount of None \<Rightarrow> True | Some a \<Rightarrow> smallInteger a)"

text \<open>
  The table of two after alice has raised to 0.1, and after she has raised to 0.3 as
  well; and the table of two, in integers, after alice has raised to 101.
\<close>

definition raisedByTenth :: store where
  "raisedByTenth =
     snd (handlePlayerAction_js ''sockA'' ''raise'' (Some tenth) (jsStore tableOfTwo))"

definition raisedByThreeTenths :: store where
  "raisedByThreeTenths =
     snd (handlePlayerAction_js ''sockA'' ''raise'' (Some threeTenths) raisedByTenth)"

definition raisedTo101 :: store where
  "raisedTo101 = jsStore (snd (handlePlayerAction ''sockA'' ''raise'' (Some 101) tableOfTwo))"

section \<open>What each storage method does to the maps\<close>

named_theorems eff

lemma roomPlayerIds_upd [eff]:
  "roomPlayerIds (s\<lparr>playersByRoom := AList.update k v (playersByRoom s)\<rparr>) = (roomPlayerIds s)(k := v)"
  by (simp add: roomPlayerIds_def fun_eq_iff AList.update_conv')

lemma roomPlayerIds_del [eff]:
  "roomPlayerIds (s\<lparr>playersByRoom := AList.delete k (playersByRoom s)\<rparr>) = (roomPlayerIds s)(k := [])"
  by (simp add: roomPlayerIds_def fun_eq_iff AList.delete_conv')

lemma roomPlayerIds_cong: "playersByRoom s' = playersByRoom s \<Longrightarrow> roomPlayerIds s' = roomPlayerIds s"
  by (simp add: roomPlayerIds_def fun_eq_iff)

lemma eff_storage_createRoom [eff]:
  "map_of (rooms (snd (storage_createRoom i ir s))) = (map_of (rooms s))(i \<mapsto> fst (storage_createRoom i ir s))"
  "players (snd (storage_createRoom i ir s)) = players s"
  "playersBySocket (snd (storage_createRoom i ir s)) = playersBySocket s"
  "roomPlayerIds (snd (storage_createRoom i ir s)) = (roomPlayerIds s)(i := [])"
  "betLog (snd (storage_createRoom i ir s)) = betLog s"
  "set (map fst (rooms (snd (storage_createRoom i ir s)))) = insert i (set (map fst (rooms s)))"
  "distinct (map fst (rooms s)) \<Longrightarrow> distinct (map fst (rooms (snd (storage_createRoom i ir s))))"
  by (auto simp: storage_createRoom_def Let_def AList.update_conv' roomPlayerIds_def fun_eq_iff AList.distinct_update AList.dom_update)

lemma eff_deleteRoom [eff]:
  "map_of (rooms (deleteRoom i s)) = (map_of (rooms s))(i := None)"
  "players (deleteRoom i s) = players s"
  "playersBySocket (deleteRoom i s) = playersBySocket s"
  "roomPlayerIds (deleteRoom i s) = (roomPlayerIds s)(i := [])"
  "betLog (deleteRoom i s) = betLog s"
  "distinct (map fst (rooms s)) \<Longrightarrow> distinct (map fst (rooms (deleteRoom i s)))"
  by (auto simp: deleteRoom_def AList.delete_conv' roomPlayerIds_def fun_eq_iff AList.distinct_delete)

lemma eff_updateRoomPlayerCount [eff]:
  "map_of (rooms (updateRoomPlayerCount i c s)) =
     (case map_of (rooms s) i of None \<Rightarrow> map_of (rooms s)
      | Some r \<Rightarrow> (map_of (rooms s))(i \<mapsto> r\<lparr>currentPlayers := c\<rparr>))"
  "players (updateRoomPlayerCount i c s) = players s"
  "playersBySocket (updateRoomPlayerCount i c s) = playersBySocket s"
  "playersByRoom (updateRoomPlayerCount i c s) = playersByRoom s"
  "roomPlayerIds (updateRoomPlayerCount i c s) = roomPlayerIds s"
  "betLog (updateRoomPlayerCount i c s) = betLog s"
  "distinct (map fst (rooms s)) \<Longrightarrow> distinct (map fst (rooms (updateRoomPlayerCount i c s)))"
  by (auto simp: updateRoomPlayerCount_def AList.update_conv' roomPlayerIds_def fun_eq_iff AList.distinct_update split: option.splits)

lemma eff_updateRoomGameState [eff]:
  "map_of (rooms (updateRoomGameState i u s)) =
     (case map_of (rooms s) i of None \<Rightarrow> map_of (rooms s)
      | Some r \<Rightarrow> (map_of (rooms s))(i \<mapsto> assignUpdates r u))"
  "players (updateRoomGameState i u s) = players s"
  "playersBySocket (updateRoomGameState i u s) = playersBySocket s"
  "playersByRoom (updateRoomGameState i u s) = playersByRoom s"
  "roomPlayerIds (updateRoomGameState i u s) = roomPlayerIds s"
  "betLog (updateRoomGameState i u s) = betLog s"
  "distinct (map fst (rooms s)) \<Longrightarrow> distinct (map fst (rooms (updateRoomGameState i u s)))"
  by (auto simp: updateRoomGameState_def AList.update_conv' roomPlayerIds_def fun_eq_iff AList.distinct_update split: option.splits)

lemma eff_updateRoomCurrentBet [eff]:
  "map_of (rooms (updateRoomCurrentBet i c s)) =
     (case map_of (rooms s) i of None \<Rightarrow> map_of (rooms s)
      | Some r \<Rightarrow> (map_of (rooms s))(i \<mapsto> r\<lparr>room_currentBet := c\<rparr>))"
  "players (updateRoomCurrentBet i c s) = players s"
  "playersBySocket (updateRoomCurrentBet i c s) = playersBySocket s"
  "playersByRoom (updateRoomCurrentBet i c s) = playersByRoom s"
  "roomPlayerIds (updateRoomCurrentBet i c s) = roomPlayerIds s"
  "betLog (updateRoomCurrentBet i c s) = betLog s"
  "distinct (map fst (rooms s)) \<Longrightarrow> distinct (map fst (rooms (updateRoomCurrentBet i c s)))"
  by (auto simp: updateRoomCurrentBet_def AList.update_conv' roomPlayerIds_def fun_eq_iff AList.distinct_update split: option.splits)

lemma eff_createPlayer [eff]:
  "rooms (snd (createPlayer i ip s)) = rooms s"
  "map_of (players (snd (createPlayer i ip s))) = (map_of (players s))(i \<mapsto> fst (createPlayer i ip s))"
  "map_of (playersBySocket (snd (createPlayer i ip s))) = (map_of (playersBySocket s))(ip_socketId ip \<mapsto> i)"
  "roomPlayerIds (snd (createPlayer i ip s)) = (roomPlayerIds s)(ip_roomId ip := roomPlayerIds s (ip_roomId ip) @ [i])"
  "betLog (snd (createPlayer i ip s)) = betLog s"
  "distinct (map fst (players s)) \<Longrightarrow> distinct (map fst (players (snd (createPlayer i ip s))))"
  "distinct (map fst (playersBySocket s)) \<Longrightarrow> distinct (map fst (playersBySocket (snd (createPlayer i ip s))))"
  by (auto simp: createPlayer_def Let_def AList.update_conv' roomPlayerIds_def fun_eq_iff AList.distinct_update)

lemma eff_removePlayer [eff]:
  "rooms (removePlayer i s) = rooms s"
  "map_of (players (removePlayer i s)) = (map_of (players s))(i := None)"
  "map_of (playersBySocket (removePlayer i s)) =
     (case map_of (players s) i of None \<Rightarrow> map_of (playersBySocket s)
      | Some p \<Rightarrow> (map_of (playersBySocket s))(socketId p := None))"
  "roomPlayerIds (removePlayer i s) =
     (case map_of (players s) i of None \<Rightarrow> roomPlayerIds s
      | Some p \<Rightarrow> (roomPlayerIds s)(roomId p := filter (\<lambda>pid. pid \<noteq> i) (roomPlayerIds s (roomId p))))"
  "betLog (removePlayer i s) = betLog s"
  "distinct (map fst (players s)) \<Longrightarrow> distinct (map fst (players (removePlayer i s)))"
  "distinct (map fst (playersBySocket s)) \<Longrightarrow> distinct (map fst (playersBySocket (removePlayer i s)))"
  by (auto simp: removePlayer_def Let_def AList.update_conv' AList.delete_conv' roomPlayerIds_def fun_eq_iff AList.distinct_delete split: option.splits)

lemma eff_setPlayerConnected [eff]:
  "rooms (setPlayerConnected i b s) = rooms s"
  "map_of (players (setPlayerConnected i b s)) =
     (case map_of (playersBySocket s) i of None \<Rightarrow> map_of (players s)
      | Some k \<Rightarrow> if k = [] then map_of (players s) else
         (case map_of (players s) k of None \<Rightarrow> map_of (players s)
          | Some p \<Rightarrow> (map_of (players s))(k \<mapsto> p\<lparr>isConnected := b\<rparr>)))"
  "playersBySocket (setPlayerConnected i b s) = playersBySocket s"
  "playersByRoom (setPlayerConnected i b s) = playersByRoom s"
  "roomPlayerIds (setPlayerConnected i b s) = roomPlayerIds s"
  "betLog (setPlayerConnected i b s) = betLog s"
  "distinct (map fst (players s)) \<Longrightarrow> distinct (map fst (players (setPlayerConnected i b s)))"
  by (auto simp: setPlayerConnected_def AList.update_conv' roomPlayerIds_def fun_eq_iff AList.distinct_update split: option.splits)

lemma eff_setPlayerReady [eff]:
  "rooms (setPlayerReady i b s) = rooms s"
  "map_of (players (setPlayerReady i b s)) =
     (case map_of (playersBySocket s) i of None \<Rightarrow> map_of (players s)
      | Some k \<Rightarrow> if k = [] then map_of (players s) else
         (case map_of (players s) k of None \<Rightarrow> map_of (players s)
          | Some p \<Rightarrow> (map_of (players s))(k \<mapsto> p\<lparr>isReady := b\<rparr>)))"
  "playersBySocket (setPlayerReady i b s) = playersBySocket s"
  "playersByRoom (setPlayerReady i b s) = playersByRoom s"
  "roomPlayerIds (setPlayerReady i b s) = roomPlayerIds s"
  "betLog (setPlayerReady i b s) = betLog s"
  "distinct (map fst (players s)) \<Longrightarrow> distinct (map fst (players (setPlayerReady i b s)))"
  by (auto simp: setPlayerReady_def AList.update_conv' roomPlayerIds_def fun_eq_iff AList.distinct_update split: option.splits)

lemma eff_setPlayerHasActed [eff]:
  "rooms (setPlayerHasActed i b s) = rooms s"
  "map_of (players (setPlayerHasActed i b s)) =
     (case map_of (players s) i of None \<Rightarrow> map_of (players s)
      | Some p \<Rightarrow> (map_of (players s))(i \<mapsto> p\<lparr>hasActed := b\<rparr>))"
  "playersBySocket (setPlayerHasActed i b s) = playersBySocket s"
  "playersByRoom (setPlayerHasActed i b s) = playersByRoom s"
  "roomPlayerIds (setPlayerHasActed i b s) = roomPlayerIds s"
  "betLog (setPlayerHasActed i b s) = betLog s"
  "distinct (map fst (players s)) \<Longrightarrow> distinct (map fst (players (setPlayerHasActed i b s)))"
  by (auto simp: setPlayerHasActed_def AList.update_conv' roomPlayerIds_def fun_eq_iff AList.distinct_update split: option.splits)

lemma eff_setPlayerFolded [eff]:
  "rooms (setPlayerFolded i b s) = rooms s"
  "map_of (players (setPlayerFolded i b s)) =
     (case map_of (players s) i of None \<Rightarrow> map_of (players s)
      | Some p \<Rightarrow> (map_of (players s))(i \<mapsto> p\<lparr>isFolded := b\<rparr>))"
  "playersBySocket (setPlayerFolded i b s) = playersBySocket s"
  "playersByRoom (setPlayerFolded i b s) = playersByRoom s"
  "roomPlayerIds (setPlayerFolded i b s) = roomPlayerIds s"
  "betLog (setPlayerFolded i b s) = betLog s"
  "distinct (map fst (players s)) \<Longrightarrow> distinct (map fst (players (setPlayerFolded i b s)))"
  by (auto simp: setPlayerFolded_def AList.update_conv' roomPlayerIds_def fun_eq_iff AList.distinct_update split: option.splits)

lemma eff_setPlayerHand [eff]:
  "rooms (setPlayerHand i b s) = rooms s"
  "map_of (players (setPlayerHand i b s)) =
     (case map_of (players s) i of None \<Rightarrow> map_of (players s)
      | Some p \<Rightarrow> (map_of (players s))(i \<mapsto> p\<lparr>hand := Some b\<rparr>))"
  "playersBySocket (setPlayerHand i b s) = playersBySocket s"
  "playersByRoom (setPlayerHand i b s) = playersByRoom s"
  "roomPlayerIds (setPlayerHand i b s) = roomPlayerIds s"
  "betLog (setPlayerHand i b s) = betLog s"
  "distinct (map fst (players s)) \<Longrightarrow> distinct (map fst (players (setPlayerHand i b s)))"
  by (auto simp: setPlayerHand_def AList.update_conv' roomPlayerIds_def fun_eq_iff AList.distinct_update split: option.splits)

lemma eff_updatePlayerBet [eff]:
  "map_of (rooms (updatePlayerBet i d s)) =
     (case map_of (players s) i of None \<Rightarrow> map_of (rooms s)
      | Some p \<Rightarrow> (case map_of (rooms s) (roomId p) of None \<Rightarrow> map_of (rooms s)
          | Some r \<Rightarrow> (map_of (rooms s))(roomId p \<mapsto> r\<lparr>pot := pot r + d\<rparr>)))"
  "map_of (players (updatePlayerBet i d s)) =
     (case map_of (players s) i of None \<Rightarrow> map_of (players s)
      | Some p \<Rightarrow> (map_of (players s))(i \<mapsto> p\<lparr>player_currentBet := player_currentBet p + d, chips := chips p - d\<rparr>))"
  "playersBySocket (updatePlayerBet i d s) = playersBySocket s"
  "playersByRoom (updatePlayerBet i d s) = playersByRoom s"
  "roomPlayerIds (updatePlayerBet i d s) = roomPlayerIds s"
  "betLog (updatePlayerBet i d s) =
     (case map_of (players s) i of None \<Rightarrow> betLog s | Some p \<Rightarrow> betLog s @ [Bet (roomId p) d])"
  "distinct (map fst (players s)) \<Longrightarrow> distinct (map fst (players (updatePlayerBet i d s)))"
  "distinct (map fst (rooms s)) \<Longrightarrow> distinct (map fst (rooms (updatePlayerBet i d s)))"
  by (auto simp: updatePlayerBet_def Let_def AList.update_conv' roomPlayerIds_def fun_eq_iff AList.distinct_update split: option.splits)

section \<open>The parts of the invariant\<close>

lemma wfRoom_iff:
  assumes "distinct (map fst (rooms s))"
  shows "wfRoom s k r \<longleftrightarrow>
     (room_id r = k \<and> maxPlayers r = 6 \<and> currentPlayers r \<le> 6 \<and> 0 \<le> room_currentBet r \<and>
      distinct (roomPlayerIds s k) \<and> int (length (roomPlayerIds s k)) = currentPlayers r \<and>
      (\<forall>pid \<in> set (roomPlayerIds s k). \<exists>p. map_of (players s) pid = Some p \<and> roomId p = k) \<and>
      pot r = betsSinceDeal k (betLog s) \<and>
      (\<forall>k' r'. map_of (rooms s) k' = Some r' \<longrightarrow> code r' = code r \<longrightarrow> k' = k))"
proof -
  have a: "(\<forall>(k', r') \<in> set (rooms s). code r' = code r \<longrightarrow> k' = k) \<longleftrightarrow>
        (\<forall>k' r'. map_of (rooms s) k' = Some r' \<longrightarrow> code r' = code r \<longrightarrow> k' = k)"
    using assms by (auto simp: map_of_eq_Some_iff)
  have b: "(\<forall>pid \<in> set (roomPlayerIds s k).
         case map_of (players s) pid of None \<Rightarrow> False | Some p \<Rightarrow> roomId p = k) \<longleftrightarrow>
      (\<forall>pid \<in> set (roomPlayerIds s k). \<exists>p. map_of (players s) pid = Some p \<and> roomId p = k)"
    by (auto split: option.splits)
  show ?thesis unfolding wfRoom_def a b ..
qed

lemma wf_iff:
  "wf s \<longleftrightarrow>
     distinct (map fst (rooms s)) \<and> distinct (map fst (players s)) \<and>
     distinct (map fst (playersBySocket s)) \<and>
     (\<forall>k r. map_of (rooms s) k = Some r \<longrightarrow> wfRoom s k r) \<and>
     (\<forall>k p. map_of (players s) k = Some p \<longrightarrow> wfPlayer s k p) \<and>
     (\<forall>sock k. map_of (playersBySocket s) sock = Some k \<longrightarrow> wfSocket s sock k)"
  unfolding wf_def by (auto simp: map_of_eq_Some_iff)


lemma wf_room: "wf s \<Longrightarrow> map_of (rooms s) k = Some r \<Longrightarrow> wfRoom s k r"
  unfolding wf_iff by blast

lemma wf_player: "wf s \<Longrightarrow> map_of (players s) k = Some p \<Longrightarrow> wfPlayer s k p"
  unfolding wf_iff by blast

lemma wf_socket: "wf s \<Longrightarrow> map_of (playersBySocket s) sock = Some k \<Longrightarrow> wfSocket s sock k"
  unfolding wf_iff by blast

lemma wfD_keys:
  assumes "wf s"
  shows "distinct (map fst (rooms s))" "distinct (map fst (players s))"
    "distinct (map fst (playersBySocket s))"
  using assms unfolding wf_iff by blast+

lemma wfD_room:
  assumes "wf s" "map_of (rooms s) k = Some r"
  shows "room_id r = k" "maxPlayers r = 6" "currentPlayers r \<le> 6" "0 \<le> room_currentBet r"
    "distinct (roomPlayerIds s k)" "int (length (roomPlayerIds s k)) = currentPlayers r"
    "pot r = betsSinceDeal k (betLog s)"
  using wf_room[OF assms] unfolding wfRoom_def by simp_all

lemma wfD_room_member:
  assumes "wf s" "map_of (rooms s) k = Some r" "pid \<in> set (roomPlayerIds s k)"
  shows "\<exists>p. map_of (players s) pid = Some p \<and> roomId p = k"
proof -
  have "wfRoom s k r" by (rule wf_room[OF assms(1,2)])
  then have "\<forall>pid \<in> set (roomPlayerIds s k). \<exists>p. map_of (players s) pid = Some p \<and> roomId p = k"
    unfolding wfRoom_iff[OF wfD_keys(1)[OF assms(1)]] by blast
  with assms(3) show ?thesis by blast
qed

lemma wfD_code:
  assumes "wf s" "map_of (rooms s) k = Some r" "map_of (rooms s) k' = Some r'" "code r' = code r"
  shows "k' = k"
proof -
  have "wfRoom s k r" by (rule wf_room[OF assms(1,2)])
  then have "\<forall>k' r'. map_of (rooms s) k' = Some r' \<longrightarrow> code r' = code r \<longrightarrow> k' = k"
    unfolding wfRoom_iff[OF wfD_keys(1)[OF assms(1)]] by blast
  with assms(3,4) show ?thesis by blast
qed

lemma wfD_player:
  assumes "wf s" "map_of (players s) k = Some p"
  shows "player_id p = k" "0 \<le> chips p" "0 \<le> player_currentBet p"
  using wf_player[OF assms] unfolding wfPlayer_def by simp_all

lemma wfD_seated:
  assumes "wf s" "map_of (players s) k = Some p" "map_of (rooms s) (roomId p) = Some r"
  shows "k \<in> set (roomPlayerIds s (roomId p))"
  using wf_player[OF assms(1,2)] assms(3) unfolding wfPlayer_def by simp

lemma wfD_socket:
  assumes "wf s" "map_of (playersBySocket s) sock = Some k" "map_of (players s) k = Some p"
  shows "socketId p = sock"
  using wf_socket[OF assms(1,2)] assms(3) unfolding wfSocket_def by simp

lemma wfD_socket_player:
  assumes "wf s" "map_of (playersBySocket s) sock = Some k"
  shows "\<exists>p. map_of (players s) k = Some p \<and> socketId p = sock"
  using wf_socket[OF assms(1,2)] unfolding wfSocket_def by (simp split: option.splits)

lemma wfI:
  assumes d: "distinct (map fst (rooms s))" "distinct (map fst (players s))"
    "distinct (map fst (playersBySocket s))"
    and r1: "\<And>k r. map_of (rooms s) k = Some r \<Longrightarrow>
       room_id r = k \<and> maxPlayers r = 6 \<and> currentPlayers r \<le> 6 \<and> 0 \<le> room_currentBet r \<and>
       distinct (roomPlayerIds s k) \<and> int (length (roomPlayerIds s k)) = currentPlayers r \<and>
       pot r = betsSinceDeal k (betLog s)"
    and r2: "\<And>k r pid. map_of (rooms s) k = Some r \<Longrightarrow> pid \<in> set (roomPlayerIds s k) \<Longrightarrow>
       \<exists>p. map_of (players s) pid = Some p \<and> roomId p = k"
    and r3: "\<And>k r k' r'. map_of (rooms s) k = Some r \<Longrightarrow> map_of (rooms s) k' = Some r' \<Longrightarrow>
       code r' = code r \<Longrightarrow> k' = k"
    and p1: "\<And>k p. map_of (players s) k = Some p \<Longrightarrow>
       player_id p = k \<and> 0 \<le> chips p \<and> 0 \<le> player_currentBet p"
    and p2: "\<And>k p r. map_of (players s) k = Some p \<Longrightarrow> map_of (rooms s) (roomId p) = Some r \<Longrightarrow>
       k \<in> set (roomPlayerIds s (roomId p))"
    and b1: "\<And>sock k. map_of (playersBySocket s) sock = Some k \<Longrightarrow>
       \<exists>p. map_of (players s) k = Some p \<and> socketId p = sock"
  shows "wf s"
proof -
  have R: "wfRoom s k r" if "map_of (rooms s) k = Some r" for k r
    unfolding wfRoom_iff[OF d(1)] using r1[OF that] r2[OF that] r3[OF that] by blast
  have P: "wfPlayer s k p" if "map_of (players s) k = Some p" for k p
    unfolding wfPlayer_def using p1[OF that] p2[OF that] by blast
  have B: "wfSocket s sock k" if "map_of (playersBySocket s) sock = Some k" for sock k
    unfolding wfSocket_def using b1[OF that] by auto
  show ?thesis unfolding wf_iff using d R P B by blast
qed


lemma wf_player_upd:
  assumes w: "wf s" and kp: "map_of (players s) k = Some p"
    and same: "rooms s' = rooms s" "playersBySocket s' = playersBySocket s"
      "playersByRoom s' = playersByRoom s" "betLog s' = betLog s"
    and d: "distinct (map fst (players s'))"
    and m: "map_of (players s') = (map_of (players s))(k \<mapsto> p')"
    and p': "player_id p' = player_id p" "roomId p' = roomId p" "socketId p' = socketId p"
      "0 \<le> chips p'" "0 \<le> player_currentBet p'"
  shows "wf s'"
proof (rule wfI)
  have L: "roomPlayerIds s' = roomPlayerIds s" using same(3) by (rule roomPlayerIds_cong)
  show "distinct (map fst (rooms s'))" "distinct (map fst (players s'))"
    "distinct (map fst (playersBySocket s'))"
    using wfD_keys[OF w] d same by simp_all
  show "room_id r = x \<and> maxPlayers r = 6 \<and> currentPlayers r \<le> 6 \<and> 0 \<le> room_currentBet r \<and>
       distinct (roomPlayerIds s' x) \<and> int (length (roomPlayerIds s' x)) = currentPlayers r \<and>
       pot r = betsSinceDeal x (betLog s')" if "map_of (rooms s') x = Some r" for x r
    using wfD_room[OF w, of x r] that by (simp add: same L)
  show "\<exists>q. map_of (players s') pid = Some q \<and> roomId q = x"
    if "map_of (rooms s') x = Some r" "pid \<in> set (roomPlayerIds s' x)" for x r pid
  proof -
    from that have "\<exists>q. map_of (players s) pid = Some q \<and> roomId q = x"
      using wfD_room_member[OF w, of x r pid] by (simp add: same L)
    then show ?thesis using kp p'(2) by (auto simp: m)
  qed
  show "k' = x" if "map_of (rooms s') x = Some r" "map_of (rooms s') k' = Some r'" "code r' = code r"
    for x r k' r'
    using wfD_code[OF w, of x r k' r'] that by (simp add: same)
  show "player_id q = x \<and> 0 \<le> chips q \<and> 0 \<le> player_currentBet q"
    if "map_of (players s') x = Some q" for x q
    using that wfD_player[OF w, of x q] wfD_player(1)[OF w kp] p'
    by (auto simp: m split: if_splits)
  show "x \<in> set (roomPlayerIds s' (roomId q))"
    if "map_of (players s') x = Some q" "map_of (rooms s') (roomId q) = Some r" for x q r
    using that wfD_seated[OF w, of x q r] wfD_seated[OF w kp, of r] p'(2)
    by (auto simp: m same L split: if_splits)
  show "\<exists>q. map_of (players s') x = Some q \<and> socketId q = sock"
    if "map_of (playersBySocket s') sock = Some x" for sock x
  proof -
    from that have b: "map_of (playersBySocket s) sock = Some x" by (simp add: same)
    from wfD_socket_player[OF w b] obtain q where q: "map_of (players s) x = Some q"
      "socketId q = sock" by blast
    show ?thesis
    proof (cases "x = k")
      case True
      with q kp p'(3) show ?thesis by (simp add: m)
    next
      case False
      with q show ?thesis by (simp add: m)
    qed
  qed
qed

lemma wf_setPlayerHasActed: "wf s \<Longrightarrow> wf (setPlayerHasActed i b s)"
proof (cases "map_of (players s) i")
  case None
  assume "wf s"
  with None show ?thesis by (simp add: setPlayerHasActed_def)
next
  case (Some p)
  assume w: "wf s"
  show ?thesis
    by (rule wf_player_upd[OF w Some, where p' = "p\<lparr>hasActed := b\<rparr>"])
       (simp_all add: eff Some wfD_keys[OF w] wfD_player[OF w Some])
qed


lemma wf_setPlayerFolded: "wf s \<Longrightarrow> wf (setPlayerFolded i b s)"
proof (cases "map_of (players s) i")
  case None
  assume "wf s"
  with None show ?thesis by (simp add: setPlayerFolded_def)
next
  case (Some p)
  assume w: "wf s"
  show ?thesis
    by (rule wf_player_upd[OF w Some, where p' = "p\<lparr>isFolded := b\<rparr>"])
       (simp_all add: eff Some wfD_keys[OF w] wfD_player[OF w Some])
qed

lemma wf_setPlayerHand: "wf s \<Longrightarrow> wf (setPlayerHand i b s)"
proof (cases "map_of (players s) i")
  case None
  assume "wf s"
  with None show ?thesis by (simp add: setPlayerHand_def)
next
  case (Some p)
  assume w: "wf s"
  show ?thesis
    by (rule wf_player_upd[OF w Some, where p' = "p\<lparr>hand := Some b\<rparr>"])
       (simp_all add: eff Some wfD_keys[OF w] wfD_player[OF w Some])
qed

lemma wf_setPlayerConnected: "wf s \<Longrightarrow> wf (setPlayerConnected sock b s)"
proof -
  assume w: "wf s"
  show ?thesis
  proof (cases "map_of (playersBySocket s) sock")
    case None
    with w show ?thesis by (simp add: setPlayerConnected_def)
  next
    case (Some k)
    show ?thesis
    proof (cases "k = [] \<or> map_of (players s) k = None")
      case True
      with w Some show ?thesis by (auto simp: setPlayerConnected_def)
    next
      case False
      then obtain p where kp: "map_of (players s) k = Some p" and ne: "k \<noteq> []" by auto
      show ?thesis
        by (rule wf_player_upd[OF w kp, where p' = "p\<lparr>isConnected := b\<rparr>"])
           (simp_all add: eff Some kp ne wfD_keys[OF w] wfD_player[OF w kp])
    qed
  qed
qed

lemma wf_setPlayerReady: "wf s \<Longrightarrow> wf (setPlayerReady sock b s)"
proof -
  assume w: "wf s"
  show ?thesis
  proof (cases "map_of (playersBySocket s) sock")
    case None
    with w show ?thesis by (simp add: setPlayerReady_def)
  next
    case (Some k)
    show ?thesis
    proof (cases "k = [] \<or> map_of (players s) k = None")
      case True
      with w Some show ?thesis by (auto simp: setPlayerReady_def)
    next
      case False
      then obtain p where kp: "map_of (players s) k = Some p" and ne: "k \<noteq> []" by auto
      show ?thesis
        by (rule wf_player_upd[OF w kp, where p' = "p\<lparr>isReady := b\<rparr>"])
           (simp_all add: eff Some kp ne wfD_keys[OF w] wfD_player[OF w kp])
    qed
  qed
qed

lemma betsSinceDeal_snoc:
  "betsSinceDeal k (log @ [Bet r d]) = (if r = k then betsSinceDeal k log + d else betsSinceDeal k log)"
  "betsSinceDeal k (log @ [Deal r]) = (if r = k then 0 else betsSinceDeal k log)"
  by (simp_all add: betsSinceDeal_def)

section \<open>The invariant is kept\<close>

lemma wf_upd:
  assumes w: "wf s"
    and d: "distinct (map fst (rooms s'))" "distinct (map fst (players s'))"
    and same: "playersBySocket s' = playersBySocket s" "playersByRoom s' = playersByRoom s"
    and R: "\<And>k r'. map_of (rooms s') k = Some r' \<Longrightarrow>
        \<exists>r. map_of (rooms s) k = Some r \<and> room_id r' = room_id r \<and> code r' = code r \<and>
            maxPlayers r' = maxPlayers r \<and> currentPlayers r' = currentPlayers r \<and>
            0 \<le> room_currentBet r' \<and> pot r' = betsSinceDeal k (betLog s')"
    and P: "\<And>k p'. map_of (players s') k = Some p' \<Longrightarrow>
        \<exists>p. map_of (players s) k = Some p \<and> player_id p' = player_id p \<and> roomId p' = roomId p \<and>
            socketId p' = socketId p \<and> 0 \<le> chips p' \<and> 0 \<le> player_currentBet p'"
    and P2: "\<And>k p. map_of (players s) k = Some p \<Longrightarrow>
        \<exists>p'. map_of (players s') k = Some p' \<and> roomId p' = roomId p"
  shows "wf s'"
proof (rule wfI)
  have L: "roomPlayerIds s' = roomPlayerIds s" using same(2) by (rule roomPlayerIds_cong)
  show "distinct (map fst (rooms s'))" "distinct (map fst (players s'))"
    "distinct (map fst (playersBySocket s'))"
    using wfD_keys[OF w] d same by simp_all
  show "room_id r' = x \<and> maxPlayers r' = 6 \<and> currentPlayers r' \<le> 6 \<and> 0 \<le> room_currentBet r' \<and>
       distinct (roomPlayerIds s' x) \<and> int (length (roomPlayerIds s' x)) = currentPlayers r' \<and>
       pot r' = betsSinceDeal x (betLog s')" if "map_of (rooms s') x = Some r'" for x r'
  proof -
    from R[OF that] obtain r where r: "map_of (rooms s) x = Some r" "room_id r' = room_id r"
      "maxPlayers r' = maxPlayers r" "currentPlayers r' = currentPlayers r"
      "0 \<le> room_currentBet r'" "pot r' = betsSinceDeal x (betLog s')" by blast
    with wfD_room[OF w r(1)] show ?thesis by (simp add: L)
  qed
  show "\<exists>q. map_of (players s') pid = Some q \<and> roomId q = x"
    if "map_of (rooms s') x = Some r'" "pid \<in> set (roomPlayerIds s' x)" for x r' pid
  proof -
    from R[OF that(1)] obtain r where r: "map_of (rooms s) x = Some r" by blast
    from wfD_room_member[OF w r, of pid] that(2) obtain q where
      q: "map_of (players s) pid = Some q" "roomId q = x" by (auto simp: L)
    from P2[OF q(1)] q(2) show ?thesis by auto
  qed
  show "k' = x" if "map_of (rooms s') x = Some r1" "map_of (rooms s') k' = Some r2" "code r2 = code r1"
    for x r1 k' r2
  proof -
    from R[OF that(1)] obtain a where a: "map_of (rooms s) x = Some a" "code r1 = code a" by blast
    from R[OF that(2)] obtain b where b: "map_of (rooms s) k' = Some b" "code r2 = code b" by blast
    from wfD_code[OF w a(1) b(1)] a(2) b(2) that(3) show ?thesis by simp
  qed
  show "player_id q = x \<and> 0 \<le> chips q \<and> 0 \<le> player_currentBet q"
    if "map_of (players s') x = Some q" for x q
  proof -
    from P[OF that] obtain p where p: "map_of (players s) x = Some p" "player_id q = player_id p"
      "0 \<le> chips q" "0 \<le> player_currentBet q" by blast
    with wfD_player(1)[OF w p(1)] show ?thesis by simp
  qed
  show "x \<in> set (roomPlayerIds s' (roomId q))"
    if "map_of (players s') x = Some q" "map_of (rooms s') (roomId q) = Some r'" for x q r'
  proof -
    from P[OF that(1)] obtain p where p: "map_of (players s) x = Some p" "roomId q = roomId p"
      by blast
    from R[OF that(2)] obtain r where r: "map_of (rooms s) (roomId q) = Some r" by blast
    from wfD_seated[OF w p(1), of r] r p(2) show ?thesis by (simp add: L)
  qed
  show "\<exists>q. map_of (players s') x = Some q \<and> socketId q = sock"
    if "map_of (playersBySocket s') sock = Some x" for sock x
  proof -
    from that have b: "map_of (playersBySocket s) sock = Some x" by (simp add: same)
    from wfD_socket_player[OF w b] obtain p where p: "map_of (players s) x = Some p"
      "socketId p = sock" by blast
    from P2[OF p(1)] obtain q where q: "map_of (players s') x = Some q" by blast
    from P[OF q] p have "socketId q = sock" by auto
    with q show ?thesis by blast
  qed
qed

lemma wf_updateRoomCurrentBet:
  assumes w: "wf s" and b: "0 \<le> b"
  shows "wf (updateRoomCurrentBet i b s)"
proof (cases "map_of (rooms s) i")
  case None
  then have "updateRoomCurrentBet i b s = s" by (simp add: updateRoomCurrentBet_def)
  with w show ?thesis by simp
next
  case (Some r0)
  let ?s = "updateRoomCurrentBet i b s"
  have m: "map_of (rooms ?s) = (map_of (rooms s))(i \<mapsto> r0\<lparr>room_currentBet := b\<rparr>)"
    by (simp add: eff Some)
  show ?thesis
  proof (rule wf_upd[OF w])
    show "distinct (map fst (rooms ?s))" "distinct (map fst (players ?s))"
      "playersBySocket ?s = playersBySocket s" "playersByRoom ?s = playersByRoom s"
      using wfD_keys[OF w] by (simp_all add: eff)
    show "\<exists>r. map_of (rooms s) k = Some r \<and> room_id r' = room_id r \<and> code r' = code r \<and>
            maxPlayers r' = maxPlayers r \<and> currentPlayers r' = currentPlayers r \<and>
            0 \<le> room_currentBet r' \<and> pot r' = betsSinceDeal k (betLog ?s)"
      if h: "map_of (rooms ?s) k = Some r'" for k r'
    proof (cases "k = i")
      case True
      with h have "r' = r0\<lparr>room_currentBet := b\<rparr>" by (simp add: m)
      with True Some b wfD_room(7)[OF w Some] show ?thesis by (simp add: eff)
    next
      case False
      with h have "map_of (rooms s) k = Some r'" by (simp add: m)
      with wfD_room(4,7)[OF w this] show ?thesis by (simp add: eff)
    qed
    show "\<exists>p. map_of (players s) k = Some p \<and> player_id p' = player_id p \<and> roomId p' = roomId p \<and>
            socketId p' = socketId p \<and> 0 \<le> chips p' \<and> 0 \<le> player_currentBet p'"
      if h: "map_of (players ?s) k = Some p'" for k p'
    proof -
      from h have "map_of (players s) k = Some p'" by (simp add: eff)
      with wfD_player[OF w this] show ?thesis by simp
    qed
    show "\<exists>p'. map_of (players ?s) k = Some p' \<and> roomId p' = roomId p"
      if "map_of (players s) k = Some p" for k p
      using that by (simp add: eff)
  qed
qed

lemma wf_updatePlayerBet:
  assumes w: "wf s"
    and ok: "\<And>p. map_of (players s) i = Some p \<Longrightarrow> d \<le> chips p \<and> 0 \<le> player_currentBet p + d"
  shows "wf (updatePlayerBet i d s)"
proof (cases "map_of (players s) i")
  case None
  then have "updatePlayerBet i d s = s" by (simp add: updatePlayerBet_def)
  with w show ?thesis by simp
next
  case (Some p0)
  let ?s = "updatePlayerBet i d s"
  let ?p = "p0\<lparr>player_currentBet := player_currentBet p0 + d, chips := chips p0 - d\<rparr>"
  have mp: "map_of (players ?s) = (map_of (players s))(i \<mapsto> ?p)"
    by (simp add: eff Some)
  have lg: "betLog ?s = betLog s @ [Bet (roomId p0) d]" by (simp add: eff Some)
  have mr: "map_of (rooms ?s) =
     (case map_of (rooms s) (roomId p0) of None \<Rightarrow> map_of (rooms s)
      | Some r \<Rightarrow> (map_of (rooms s))(roomId p0 \<mapsto> r\<lparr>pot := pot r + d\<rparr>))"
    by (simp add: eff Some)
  show ?thesis
  proof (rule wf_upd[OF w])
    show "distinct (map fst (rooms ?s))" "distinct (map fst (players ?s))"
      "playersBySocket ?s = playersBySocket s" "playersByRoom ?s = playersByRoom s"
      using wfD_keys[OF w] by (simp_all add: eff)
    show "\<exists>r. map_of (rooms s) k = Some r \<and> room_id r' = room_id r \<and> code r' = code r \<and>
            maxPlayers r' = maxPlayers r \<and> currentPlayers r' = currentPlayers r \<and>
            0 \<le> room_currentBet r' \<and> pot r' = betsSinceDeal k (betLog ?s)"
      if h: "map_of (rooms ?s) k = Some r'" for k r'
    proof (cases "k = roomId p0")
      case True
      show ?thesis
      proof (cases "map_of (rooms s) (roomId p0)")
        case None
        with h True show ?thesis by (simp add: mr)
      next
        case (Some r0)
        with h True have "r' = r0\<lparr>pot := pot r0 + d\<rparr>" by (simp add: mr)
        with True Some wfD_room(4,7)[OF w Some] show ?thesis
          by (simp add: lg betsSinceDeal_snoc)
      qed
    next
      case False
      with h have "map_of (rooms s) k = Some r'" by (simp add: mr split: option.splits)
      with wfD_room(4,7)[OF w this] False show ?thesis by (simp add: lg betsSinceDeal_snoc)
    qed
    show "\<exists>p. map_of (players s) k = Some p \<and> player_id p' = player_id p \<and> roomId p' = roomId p \<and>
            socketId p' = socketId p \<and> 0 \<le> chips p' \<and> 0 \<le> player_currentBet p'"
      if h: "map_of (players ?s) k = Some p'" for k p'
    proof (cases "k = i")
      case True
      with h have "p' = ?p" by (simp add: mp)
      with True Some ok[OF Some] show ?thesis by simp
    next
      case False
      with h have "map_of (players s) k = Some p'" by (simp add: mp)
      with wfD_player[OF w this] show ?thesis by simp
    qed
    show "\<exists>p'. map_of (players ?s) k = Some p' \<and> roomId p' = roomId p"
      if "map_of (players s) k = Some p" for k p
      using that Some by (cases "k = i") (simp_all add: mp)
  qed
qed


lemma getPlayerBySocketId_SomeD:
  assumes "getPlayerBySocketId s sock = Some p"
  shows "map_of (playersBySocket s) sock = Some (playerKey s sock)"
    "playerKey s sock \<noteq> []" "map_of (players s) (playerKey s sock) = Some p"
  using assms unfolding getPlayerBySocketId_def playerKey_def
  by (simp_all split: option.splits if_splits)

lemma wf_found:
  assumes w: "wf s" and g: "getPlayerBySocketId s sock = Some p"
  shows "playerKey s sock = player_id p" "map_of (players s) (player_id p) = Some p"
    "socketId p = sock" "0 \<le> chips p" "0 \<le> player_currentBet p"
proof -
  note k = getPlayerBySocketId_SomeD[OF g]
  show a: "playerKey s sock = player_id p" using wfD_player(1)[OF w k(3)] by simp
  show "map_of (players s) (player_id p) = Some p" using k(3) a by simp
  show "socketId p = sock" by (rule wfD_socket[OF w k(1) k(3)])
  show "0 \<le> chips p" "0 \<le> player_currentBet p" using wfD_player(2,3)[OF w k(3)] by simp_all
qed

lemma readRoom_nonneg:
  assumes "wf s'" "0 \<le> room_currentBet room"
  shows "0 \<le> room_currentBet (readRoom s' k room)"
proof (cases "map_of (rooms s') k")
  case None
  with assms(2) show ?thesis by (simp add: readRoom_def)
next
  case (Some r)
  with wfD_room(4)[OF assms(1) Some] show ?thesis by (simp add: readRoom_def)
qed

lemma wf_handlePlayerAction:
  assumes w: "wf s"
  shows "wf (snd (handlePlayerAction sock action amount s))"
proof (cases "getPlayerBySocketId s sock")
  case None
  with w show ?thesis by (simp add: handlePlayerAction_def)
next
  case (Some player)
  note pl = wf_found[OF w Some]
  show ?thesis
  proof (cases "getRoomById s (roomId player)")
    case None
    with w Some show ?thesis by (simp add: handlePlayerAction_def)
  next
    case (Some room)
    then have rm: "map_of (rooms s) (roomId player) = Some room" by (simp add: getRoomById_def)
    note r = wfD_room[OF w rm]
    let ?pid = "player_id player"
    have call: "wf (setPlayerHasActed ?pid True (updatePlayerBet ?pid (room_currentBet room - player_currentBet player) s))"
      if "\<not> chips player < room_currentBet room - player_currentBet player"
      using that r(4) pl(2) by (intro wf_setPlayerHasActed wf_updatePlayerBet w) auto
    have raise: "wf (setPlayerHasActed ?pid True (updateRoomCurrentBet (room_id room) a
                       (updatePlayerBet ?pid (a - player_currentBet player) s)))"
      if "\<not> a \<le> room_currentBet room" "\<not> chips player < a" for a
      using that r(4) pl(2,5) by (intro wf_setPlayerHasActed wf_updateRoomCurrentBet wf_updatePlayerBet w) auto
    have s2: "wf (setPlayerHasActed ?pid True (updatePlayerBet ?pid (chips player) s))"
      using pl(2,4,5) by (intro wf_setPlayerHasActed wf_updatePlayerBet w) auto
    have allin: "wf (updateRoomCurrentBet (room_id room) b
                   (setPlayerHasActed ?pid True (updatePlayerBet ?pid (chips player) s)))"
      if "room_currentBet (readRoom (setPlayerHasActed ?pid True (updatePlayerBet ?pid (chips player) s)) (roomId player) room) < b" for b
      using that readRoom_nonneg[OF s2 r(4), of "roomId player"]
      by (intro wf_updateRoomCurrentBet s2) simp
    show ?thesis
      unfolding handlePlayerAction_def Let_def
      using \<open>getPlayerBySocketId s sock = Some player\<close> Some w call raise s2 allin
      by (simp add: wf_setPlayerFolded wf_setPlayerHasActed split: option.splits)
  qed
qed

lemma getRoomByCode_SomeD:
  assumes w: "wf s" and g: "getRoomByCode s c = Some r"
  shows "map_of (rooms s) (room_id r) = Some r" "code r = c"
proof -
  from g have "r \<in> set (map snd (rooms s))" and c: "code r = c"
    unfolding getRoomByCode_def by (auto simp: find_Some_iff)
  then obtain k where "(k, r) \<in> set (rooms s)" by auto
  then have m: "map_of (rooms s) k = Some r" using wfD_keys(1)[OF w] by simp
  from wfD_room(1)[OF w m] m show "map_of (rooms s) (room_id r) = Some r" by simp
  show "code r = c" by (rule c)
qed

lemma getRoomByCode_NoneD:
  assumes "getRoomByCode s c = None" "map_of (rooms s) k = Some r"
  shows "code r \<noteq> c"
proof -
  from assms(2) have "(k, r) \<in> set (rooms s)" by (rule map_of_SomeD)
  then have "r \<in> set (map snd (rooms s))" by force
  with assms(1) show ?thesis unfolding getRoomByCode_def by (auto simp: find_None_iff)
qed

lemma betsSinceDeal_fresh: "u \<notin> set (map eventRoom log) \<Longrightarrow> betsSinceDeal u log = 0"
proof (induction log rule: rev_induct)
  case Nil
  show ?case by (simp add: betsSinceDeal_def)
next
  case (snoc e log)
  then show ?case by (cases e) (auto simp: betsSinceDeal_snoc)
qed

lemma freshUuidD:
  assumes "freshUuid s u"
  shows "map_of (rooms s) u = None" "map_of (players s) u = None"
    "\<And>k p. map_of (players s) k = Some p \<Longrightarrow> roomId p \<noteq> u"
    "betsSinceDeal u (betLog s) = 0"
proof -
  from assms show "map_of (rooms s) u = None" "map_of (players s) u = None"
    unfolding freshUuid_def by (simp_all add: map_of_eq_None_iff)
  show "roomId p \<noteq> u" if "map_of (players s) k = Some p" for k p
  proof -
    from that have "(k, p) \<in> set (players s)" by (rule map_of_SomeD)
    then have "roomId p \<in> set (map (roomId \<circ> snd) (players s))" by force
    with assms show ?thesis unfolding freshUuid_def by auto
  qed
  from assms show "betsSinceDeal u (betLog s) = 0"
    unfolding freshUuid_def by (simp add: betsSinceDeal_fresh)
qed

lemma dealLoop_same:
  "rooms (snd (dealLoop ps cards s)) = rooms s"
  "playersBySocket (snd (dealLoop ps cards s)) = playersBySocket s"
  "playersByRoom (snd (dealLoop ps cards s)) = playersByRoom s"
  "betLog (snd (dealLoop ps cards s)) = betLog s"
  by (induction ps cards s rule: dealLoop.induct) (simp_all add: eff)

lemma dealLoop_deck: "fst (dealLoop ps cards s) = drop (4 * length ps) cards"
  by (induction ps cards s rule: dealLoop.induct) (simp_all add: add.commute)

lemma wf_dealLoop: "wf s \<Longrightarrow> wf (snd (dealLoop ps cards s))"
  by (induction ps cards s rule: dealLoop.induct) (simp_all add: wf_setPlayerHand)

lemma wf_deal_finish:
  assumes w: "wf s" and u: "u_pot u = Some 0" "u_currentBet u = Some 0"
  shows "wf ((updateRoomGameState i u s)\<lparr>betLog := betLog (updateRoomGameState i u s) @ [Deal i]\<rparr>)"
    (is "wf ?s")
proof (rule wf_upd[OF w])
  have mr: "map_of (rooms ?s) = (case map_of (rooms s) i of None \<Rightarrow> map_of (rooms s)
      | Some r \<Rightarrow> (map_of (rooms s))(i \<mapsto> assignUpdates r u))" by (simp add: eff)
  have lg: "betLog ?s = betLog s @ [Deal i]" by (simp add: eff)
  show "distinct (map fst (rooms ?s))" "distinct (map fst (players ?s))"
      "playersBySocket ?s = playersBySocket s" "playersByRoom ?s = playersByRoom s"
      using wfD_keys[OF w] by (simp_all add: eff)
  show "\<exists>r. map_of (rooms s) k = Some r \<and> room_id r' = room_id r \<and> code r' = code r \<and>
            maxPlayers r' = maxPlayers r \<and> currentPlayers r' = currentPlayers r \<and>
            0 \<le> room_currentBet r' \<and> pot r' = betsSinceDeal k (betLog ?s)"
      if h: "map_of (rooms ?s) k = Some r'" for k r'
  proof (cases "k = i")
    case True
    show ?thesis
    proof (cases "map_of (rooms s) i")
      case None
      with h True show ?thesis by (simp add: eff)
    next
      case (Some r0)
      with h True have "r' = assignUpdates r0 u" by (simp add: eff)
      with True Some u show ?thesis
        by (simp add: lg betsSinceDeal_snoc assignUpdates_def)
    qed
  next
    case False
    with h have "map_of (rooms s) k = Some r'" by (simp add: eff split: option.splits)
    with wfD_room(4,7)[OF w this] False show ?thesis by (simp add: lg betsSinceDeal_snoc)
  qed
  show "\<exists>p. map_of (players s) k = Some p \<and> player_id p' = player_id p \<and> roomId p' = roomId p \<and>
            socketId p' = socketId p \<and> 0 \<le> chips p' \<and> 0 \<le> player_currentBet p'"
      if h: "map_of (players ?s) k = Some p'" for k p'
  proof -
    from h have "map_of (players s) k = Some p'" by (simp add: eff)
    with wfD_player[OF w this] show ?thesis by simp
  qed
  show "\<exists>p'. map_of (players ?s) k = Some p' \<and> roomId p' = roomId p"
      if "map_of (players s) k = Some p" for k p
      using that by (simp add: eff)
qed

lemma wf_dealCards: "wf s \<Longrightarrow> wf (snd (dealCards uuid rand rid s))"
  unfolding dealCards_def Let_def
  by (simp add: wf_deal_finish wf_dealLoop split: option.splits prod.splits)
     (metis wf_deal_finish wf_dealLoop snd_conv roomUpdates.select_convs(3,4))

lemma fst_storage_createRoom:
  "fst (storage_createRoom i ir s) =
     \<lparr>room_id = i, code = ir_code ir, hostId = ir_hostId ir, maxPlayers = ir_maxPlayers ir,
      currentPlayers = 0, gameState = ''waiting'', pot = 0, room_currentBet = 0,
      room_round = ''pre-flop'', deck = None, communityCards = None\<rparr>"
  by (simp add: storage_createRoom_def Let_def)

lemma fst_createPlayer:
  "fst (createPlayer i ip s) =
     \<lparr>player_id = i, roomId = ip_roomId ip, socketId = ip_socketId ip,
      player_name = ip_name ip, chips = ip_chips ip, hand = None, isConnected = True,
      isReady = False, hasActed = False, player_currentBet = 0, position = None,
      isFolded = False\<rparr>"
  by (simp add: createPlayer_def Let_def)

lemma createRoom_maps:
  assumes c: "createRoom codes ru pu sock n s = Some (res, s')"
  obtains c where "getRoomByCode s c = None" "res = Success (c, pu)"
    "map_of (rooms s') = (map_of (rooms s))(ru \<mapsto> newRoom ru c sock)"
    "map_of (players s') = (map_of (players s))(pu \<mapsto> newPlayer pu ru sock n)"
    "map_of (playersBySocket s') = (map_of (playersBySocket s))(sock \<mapsto> pu)"
    "roomPlayerIds s' = (roomPlayerIds s)(ru := [pu])"
    "betLog s' = betLog s"
    "distinct (map fst (rooms s)) \<Longrightarrow> distinct (map fst (rooms s'))"
    "distinct (map fst (players s)) \<Longrightarrow> distinct (map fst (players s'))"
    "distinct (map fst (playersBySocket s)) \<Longrightarrow> distinct (map fst (playersBySocket s'))"
proof -
  from c obtain rc where f: "find (\<lambda>c. getRoomByCode s c = None) codes = Some rc"
    unfolding createRoom_def by (auto split: option.splits)
  then have g: "getRoomByCode s rc = None" by (auto simp: find_Some_iff)
  let ?ir = "\<lparr>ir_code = rc, ir_hostId = sock, ir_maxPlayers = 6\<rparr>"
  let ?s1 = "snd (storage_createRoom ru ?ir s)"
  let ?ip = "\<lparr>ip_roomId = ru, ip_socketId = sock, ip_name = n, ip_chips = 1000\<rparr>"
  let ?s2 = "snd (createPlayer pu ?ip ?s1)"
  have rid: "room_id (fst (storage_createRoom ru ?ir s)) = ru"
    by (simp add: fst_storage_createRoom)
  have pid: "player_id (fst (createPlayer pu ?ip ?s1)) = pu"
    by (simp add: fst_createPlayer)
  from c f have s': "s' = updateRoomPlayerCount ru 1 ?s2" and res: "res = Success (rc, pu)"
    unfolding createRoom_def by (simp_all add: Let_def case_prod_beta rid pid)
  have room1: "map_of (rooms ?s2) ru = Some (fst (storage_createRoom ru ?ir s))"
    by (simp add: eff)
  show ?thesis
  proof (rule that[of rc])
    show "getRoomByCode s rc = None" by (rule g)
    show "res = Success (rc, pu)" by (rule res)
    show "map_of (rooms s') = (map_of (rooms s))(ru \<mapsto> newRoom ru rc sock)"
      unfolding s' by (simp add: eff fst_storage_createRoom newRoom_def)
    show "map_of (players s') = (map_of (players s))(pu \<mapsto> newPlayer pu ru sock n)"
      unfolding s' by (simp add: eff fst_createPlayer newPlayer_def)
    show "map_of (playersBySocket s') = (map_of (playersBySocket s))(sock \<mapsto> pu)"
      unfolding s' by (simp add: eff)
    show "roomPlayerIds s' = (roomPlayerIds s)(ru := [pu])"
      unfolding s' by (simp add: eff)
    show "betLog s' = betLog s" unfolding s' by (simp add: eff)
    show "distinct (map fst (rooms s)) \<Longrightarrow> distinct (map fst (rooms s'))"
      unfolding s' by (simp add: eff)
    show "distinct (map fst (players s)) \<Longrightarrow> distinct (map fst (players s'))"
      unfolding s' by (simp add: eff)
    show "distinct (map fst (playersBySocket s)) \<Longrightarrow> distinct (map fst (playersBySocket s'))"
      unfolding s' by (simp add: eff)
  qed
qed


lemma wf_createRoom:
  assumes w: "wf s" and fr: "freshUuid s ru" and fp: "freshUuid s pu"
    and c: "createRoom codes ru pu sock n s = Some (res, s')"
  shows "wf s'"
proof -
  from c obtain rc where g: "getRoomByCode s rc = None"
    and R: "map_of (rooms s') = (map_of (rooms s))(ru \<mapsto> newRoom ru rc sock)"
    and P: "map_of (players s') = (map_of (players s))(pu \<mapsto> newPlayer pu ru sock n)"
    and B: "map_of (playersBySocket s') = (map_of (playersBySocket s))(sock \<mapsto> pu)"
    and L: "roomPlayerIds s' = (roomPlayerIds s)(ru := [pu])"
    and G: "betLog s' = betLog s"
    and D: "distinct (map fst (rooms s'))" "distinct (map fst (players s'))"
      "distinct (map fst (playersBySocket s'))"
    using wfD_keys[OF w] by (auto elim!: createRoom_maps)
  note fr' = freshUuidD[OF fr] and fp' = freshUuidD[OF fp]
  show ?thesis
  proof (rule wfI)
    show "distinct (map fst (rooms s'))" "distinct (map fst (players s'))"
      "distinct (map fst (playersBySocket s'))" by (rule D)+
    show "room_id r = k \<and> maxPlayers r = 6 \<and> currentPlayers r \<le> 6 \<and> 0 \<le> room_currentBet r \<and>
       distinct (roomPlayerIds s' k) \<and> int (length (roomPlayerIds s' k)) = currentPlayers r \<and>
       pot r = betsSinceDeal k (betLog s')" if h: "map_of (rooms s') k = Some r" for k r
    proof (cases "k = ru")
      case True
      with h have "r = newRoom ru rc sock" by (simp add: R)
      with True fr'(4) show ?thesis by (simp add: newRoom_def L G)
    next
      case False
      with h have "map_of (rooms s) k = Some r" by (simp add: R)
      with wfD_room[OF w this] False show ?thesis by (simp add: L G)
    qed
    show "\<exists>p. map_of (players s') pid = Some p \<and> roomId p = k"
      if h: "map_of (rooms s') k = Some r" "pid \<in> set (roomPlayerIds s' k)" for k r pid
    proof (cases "k = ru")
      case True
      with h(2) show ?thesis by (simp add: L P newPlayer_def)
    next
      case False
      with h have m: "map_of (rooms s) k = Some r" "pid \<in> set (roomPlayerIds s k)"
        by (simp_all add: R L)
      from wfD_room_member[OF w m] obtain p where p: "map_of (players s) pid = Some p"
        "roomId p = k" by blast
      with fp'(2) have "pid \<noteq> pu" by auto
      with p show ?thesis by (simp add: P)
    qed
    show "k' = k" if h: "map_of (rooms s') k = Some r" "map_of (rooms s') k' = Some r'"
      "code r' = code r" for k r k' r'
    proof (cases "k = ru")
      case True
      with h(1) have r: "code r = rc" by (auto simp: R newRoom_def)
      show ?thesis
      proof (cases "k' = ru")
        case True
        with \<open>k = ru\<close> show ?thesis by simp
      next
        case False
        with h(2) have "map_of (rooms s) k' = Some r'" by (simp add: R)
        from getRoomByCode_NoneD[OF g this] h(3) r show ?thesis by simp
      qed
    next
      case False
      with h(1) have m: "map_of (rooms s) k = Some r" by (simp add: R)
      show ?thesis
      proof (cases "k' = ru")
        case True
        with h(2) have "code r' = rc" by (auto simp: R newRoom_def)
        with getRoomByCode_NoneD[OF g m] h(3) show ?thesis by simp
      next
        case False
        with h(2) have "map_of (rooms s) k' = Some r'" by (simp add: R)
        from wfD_code[OF w m this h(3)] show ?thesis .
      qed
    qed
    show "player_id p = k \<and> 0 \<le> chips p \<and> 0 \<le> player_currentBet p"
      if h: "map_of (players s') k = Some p" for k p
    proof (cases "k = pu")
      case True
      with h show ?thesis by (auto simp: P newPlayer_def)
    next
      case False
      with h have "map_of (players s) k = Some p" by (simp add: P)
      from wfD_player[OF w this] show ?thesis by simp
    qed
    show "k \<in> set (roomPlayerIds s' (roomId p))"
      if h: "map_of (players s') k = Some p" "map_of (rooms s') (roomId p) = Some r" for k p r
    proof (cases "k = pu")
      case True
      with h(1) show ?thesis by (auto simp: P L newPlayer_def)
    next
      case False
      with h(1) have m: "map_of (players s) k = Some p" by (simp add: P)
      from fr'(3)[OF m] have ne: "roomId p \<noteq> ru" .
      with h(2) have "map_of (rooms s) (roomId p) = Some r" by (simp add: R)
      from wfD_seated[OF w m this] ne show ?thesis by (simp add: L)
    qed
    show "\<exists>p. map_of (players s') k = Some p \<and> socketId p = sock'"
      if h: "map_of (playersBySocket s') sock' = Some k" for sock' k
    proof (cases "sock' = sock")
      case True
      with h show ?thesis by (auto simp: B P newPlayer_def)
    next
      case False
      with h have "map_of (playersBySocket s) sock' = Some k" by (simp add: B)
      from wfD_socket_player[OF w this] obtain p where p: "map_of (players s) k = Some p"
        "socketId p = sock'" by blast
      with fp'(2) have "k \<noteq> pu" by auto
      with p show ?thesis by (simp add: P)
    qed
  qed
qed


lemma wf_join_new:
  assumes w: "wf s" and fp: "freshUuid s pu"
    and rm: "map_of (rooms s) rk = Some room" and notfull: "currentPlayers room < maxPlayers room"
  shows "wf (updateRoomPlayerCount rk (currentPlayers room + 1)
           (snd (createPlayer pu \<lparr>ip_roomId = rk, ip_socketId = sock, ip_name = n, ip_chips = 1000\<rparr> s)))"
    (is "wf ?s'")
proof -
  have R: "map_of (rooms ?s') = (map_of (rooms s))(rk \<mapsto> room\<lparr>currentPlayers := currentPlayers room + 1\<rparr>)"
    by (simp add: eff rm)
  have P: "map_of (players ?s') = (map_of (players s))(pu \<mapsto> newPlayer pu rk sock n)"
    by (simp add: eff fst_createPlayer newPlayer_def)
  have B: "map_of (playersBySocket ?s') = (map_of (playersBySocket s))(sock \<mapsto> pu)"
    by (simp add: eff)
  have L: "roomPlayerIds ?s' = (roomPlayerIds s)(rk := roomPlayerIds s rk @ [pu])"
    by (simp add: eff)
  have G: "betLog ?s' = betLog s" by (simp add: eff)
  note fp' = freshUuidD[OF fp]
  note r0 = wfD_room[OF w rm]
  have notin: "pu \<notin> set (roomPlayerIds s k)" if "map_of (rooms s) k = Some r" for k r
  proof
    assume "pu \<in> set (roomPlayerIds s k)"
    from wfD_room_member[OF w that this] fp'(2) show False by auto
  qed
  show ?thesis
  proof (rule wfI)
    show "distinct (map fst (rooms ?s'))" "distinct (map fst (players ?s'))"
      "distinct (map fst (playersBySocket ?s'))" using wfD_keys[OF w] by (simp_all add: eff)
    show "room_id r = k \<and> maxPlayers r = 6 \<and> currentPlayers r \<le> 6 \<and> 0 \<le> room_currentBet r \<and>
       distinct (roomPlayerIds ?s' k) \<and> int (length (roomPlayerIds ?s' k)) = currentPlayers r \<and>
       pot r = betsSinceDeal k (betLog ?s')" if h: "map_of (rooms ?s') k = Some r" for k r
    proof (cases "k = rk")
      case True
      with h have "r = room\<lparr>currentPlayers := currentPlayers room + 1\<rparr>" by (simp only: R) simp
      with True r0 notfull notin[OF rm] show ?thesis by (simp add: L G)
    next
      case False
      with h have "map_of (rooms s) k = Some r" by (simp only: R) simp
      with wfD_room[OF w this] False show ?thesis by (simp add: L G)
    qed
    show "\<exists>p. map_of (players ?s') pid = Some p \<and> roomId p = k"
      if h: "map_of (rooms ?s') k = Some r" "pid \<in> set (roomPlayerIds ?s' k)" for k r pid
    proof (cases "pid = pu")
      case True
      from h(1) have ex: "\<exists>r0. map_of (rooms s) k = Some r0"
        by (simp only: R) (simp split: if_splits add: rm)
      then obtain r0 where r0: "map_of (rooms s) k = Some r0" by blast
      from h(2) True notin[OF r0] have "k = rk" by (simp only: L) (simp split: if_splits)
      with True show ?thesis by (simp only: P) (simp add: newPlayer_def)
    next
      case False
      from h(1) obtain r0 where r0: "map_of (rooms s) k = Some r0"
        by (simp only: R) (auto split: if_splits simp: rm)
      from h(2) False have "pid \<in> set (roomPlayerIds s k)" by (simp only: L) (simp split: if_splits)
      from wfD_room_member[OF w r0 this] False show ?thesis by (simp only: P) simp
    qed
    show "k' = k" if h: "map_of (rooms ?s') k = Some r" "map_of (rooms ?s') k' = Some r'"
      "code r' = code r" for k r k' r'
    proof -
      from h(1) obtain a where a: "map_of (rooms s) k = Some a" "code a = code r"
        by (simp only: R) (auto split: if_splits simp: rm)
      from h(2) obtain b where b: "map_of (rooms s) k' = Some b" "code b = code r'"
        by (simp only: R) (auto split: if_splits simp: rm)
      from wfD_code[OF w a(1) b(1)] a(2) b(2) h(3) show ?thesis by simp
    qed
    show "player_id p = k \<and> 0 \<le> chips p \<and> 0 \<le> player_currentBet p"
      if h: "map_of (players ?s') k = Some p" for k p
    proof (cases "k = pu")
      case True
      with h show ?thesis by (simp only: P) (auto simp: newPlayer_def)
    next
      case False
      with h have "map_of (players s) k = Some p" by (simp only: P) simp
      from wfD_player[OF w this] show ?thesis by simp
    qed
    show "k \<in> set (roomPlayerIds ?s' (roomId p))"
      if h: "map_of (players ?s') k = Some p" "map_of (rooms ?s') (roomId p) = Some r" for k p r
    proof (cases "k = pu")
      case True
      with h(1) have "roomId p = rk" by (simp only: P) (auto simp: newPlayer_def)
      with True show ?thesis by (simp only: L) simp
    next
      case False
      with h(1) have m: "map_of (players s) k = Some p" by (simp only: P) simp
      from h(2) obtain r0 where "map_of (rooms s) (roomId p) = Some r0"
        by (simp only: R) (auto split: if_splits simp: rm)
      from wfD_seated[OF w m this] show ?thesis by (simp only: L) auto
    qed
    show "\<exists>p. map_of (players ?s') k = Some p \<and> socketId p = sock'"
      if h: "map_of (playersBySocket ?s') sock' = Some k" for sock' k
    proof (cases "sock' = sock")
      case True
      with h have "k = pu" by (simp only: B) simp
      with True show ?thesis by (simp only: P) (simp add: newPlayer_def)
    next
      case False
      with h have "map_of (playersBySocket s) sock' = Some k" by (simp only: B) simp
      from wfD_socket_player[OF w this] obtain p where p: "map_of (players s) k = Some p"
        "socketId p = sock'" by blast
      with fp'(2) have "k \<noteq> pu" by auto
      with p show ?thesis by (simp only: P) simp
    qed
  qed
qed

lemma wf_joinRoom:
  assumes w: "wf s" and fp: "freshUuid s pu"
  shows "wf (snd (joinRoom pu sock n c s))"
proof (cases "getRoomByCode s c")
  case None
  with w show ?thesis by (simp add: joinRoom_def)
next
  case (Some room)
  note rm = getRoomByCode_SomeD(1)[OF w Some]
  show ?thesis
    unfolding joinRoom_def Let_def using Some w wf_join_new[OF w fp rm, of sock n]
    by (simp add: wf_setPlayerConnected case_prod_beta fst_createPlayer split: option.splits)
qed


lemma wf_deleteRoom:
  assumes w: "wf s"
  shows "wf (deleteRoom i s)" (is "wf ?s'")
proof (rule wfI)
  have R: "map_of (rooms ?s') = (map_of (rooms s))(i := None)" by (simp add: eff)
  have L: "roomPlayerIds ?s' = (roomPlayerIds s)(i := [])" by (simp add: eff)
  have O: "players ?s' = players s" "playersBySocket ?s' = playersBySocket s"
    "betLog ?s' = betLog s" by (simp_all add: eff)
  have sub: "k \<noteq> i \<and> map_of (rooms s) k = Some r" if "map_of (rooms ?s') k = Some r" for k r
    using that by (simp only: R) (simp split: if_splits)
  show "distinct (map fst (rooms ?s'))" "distinct (map fst (players ?s'))"
    "distinct (map fst (playersBySocket ?s'))" using wfD_keys[OF w] by (simp_all add: eff)
  show "room_id r = k \<and> maxPlayers r = 6 \<and> currentPlayers r \<le> 6 \<and> 0 \<le> room_currentBet r \<and>
       distinct (roomPlayerIds ?s' k) \<and> int (length (roomPlayerIds ?s' k)) = currentPlayers r \<and>
       pot r = betsSinceDeal k (betLog ?s')" if h: "map_of (rooms ?s') k = Some r" for k r
    using sub[OF h] wfD_room[OF w, of k r] by (simp add: L O)
  show "\<exists>p. map_of (players ?s') pid = Some p \<and> roomId p = k"
    if h: "map_of (rooms ?s') k = Some r" "pid \<in> set (roomPlayerIds ?s' k)" for k r pid
    using sub[OF h(1)] h(2) wfD_room_member[OF w, of k r pid] by (simp add: L O)
  show "k' = k" if h: "map_of (rooms ?s') k = Some r" "map_of (rooms ?s') k' = Some r'"
    "code r' = code r" for k r k' r'
    using sub[OF h(1)] sub[OF h(2)] h(3) wfD_code[OF w, of k r k' r'] by simp
  show "player_id p = k \<and> 0 \<le> chips p \<and> 0 \<le> player_currentBet p"
    if h: "map_of (players ?s') k = Some p" for k p
    using h wfD_player[OF w, of k p] by (simp add: O)
  show "k \<in> set (roomPlayerIds ?s' (roomId p))"
    if h: "map_of (players ?s') k = Some p" "map_of (rooms ?s') (roomId p) = Some r" for k p r
    using sub[OF h(2)] h(1) wfD_seated[OF w, of k p r] by (simp add: L O)
  show "\<exists>p. map_of (players ?s') k = Some p \<and> socketId p = sock'"
    if h: "map_of (playersBySocket ?s') sock' = Some k" for sock' k
    using h wfD_socket_player[OF w, of sock' k] by (simp add: O)
qed

lemma length_filter_remove:
  assumes "distinct xs" "x \<in> set xs"
  shows "int (length (filter (\<lambda>y. y \<noteq> x) xs)) = int (length xs) - 1"
  using assms
proof (induction xs)
  case Nil
  then show ?case by simp
next
  case (Cons a xs)
  show ?case
  proof (cases "a = x")
    case True
    with Cons.prems have "x \<notin> set xs" by simp
    then have "filter (\<lambda>y. y \<noteq> x) xs = xs" by (auto simp: filter_id_conv)
    with True show ?thesis by simp
  next
    case False
    with Cons show ?thesis by simp
  qed
qed

lemma wf_leave_remove:
  assumes w: "wf s" and pl: "map_of (players s) pk = Some p"
    and so: "map_of (playersBySocket s) sock = Some pk"
    and rm: "map_of (rooms s) (roomId p) = Some r"
  shows "wf (updateRoomPlayerCount (roomId p) (currentPlayers r - 1) (removePlayer pk s))"
    (is "wf ?s'")
proof -
  let ?rk = "roomId p"
  have sk: "socketId p = sock" by (rule wfD_socket[OF w so pl])
  have R: "map_of (rooms ?s') = (map_of (rooms s))(?rk \<mapsto> r\<lparr>currentPlayers := currentPlayers r - 1\<rparr>)"
    by (simp add: eff rm)
  have P: "map_of (players ?s') = (map_of (players s))(pk := None)" by (simp add: eff)
  have B: "map_of (playersBySocket ?s') = (map_of (playersBySocket s))(sock := None)"
    by (simp add: eff pl sk)
  have L: "roomPlayerIds ?s' = (roomPlayerIds s)(?rk := filter (\<lambda>pid. pid \<noteq> pk) (roomPlayerIds s ?rk))"
    by (simp add: eff pl)
  have G: "betLog ?s' = betLog s" by (simp add: eff)
  note r0 = wfD_room[OF w rm]
  have seated: "pk \<in> set (roomPlayerIds s ?rk)" by (rule wfD_seated[OF w pl rm])
  have len: "int (length (filter (\<lambda>pid. pid \<noteq> pk) (roomPlayerIds s ?rk))) = currentPlayers r - 1"
    using length_filter_remove[OF r0(5) seated] r0(6) by simp
  have old: "\<exists>r0. map_of (rooms s) k = Some r0 \<and> code r0 = code r' \<and> (k \<noteq> ?rk \<longrightarrow> r0 = r')"
    if "map_of (rooms ?s') k = Some r'" for k r'
    using that by (simp only: R) (auto split: if_splits simp: rm)
  show ?thesis
  proof (rule wfI)
    show "distinct (map fst (rooms ?s'))" "distinct (map fst (players ?s'))"
      "distinct (map fst (playersBySocket ?s'))" using wfD_keys[OF w] by (simp_all add: eff)
    show "room_id x = k \<and> maxPlayers x = 6 \<and> currentPlayers x \<le> 6 \<and> 0 \<le> room_currentBet x \<and>
       distinct (roomPlayerIds ?s' k) \<and> int (length (roomPlayerIds ?s' k)) = currentPlayers x \<and>
       pot x = betsSinceDeal k (betLog ?s')" if h: "map_of (rooms ?s') k = Some x" for k x
    proof (cases "k = ?rk")
      case True
      with h have "x = r\<lparr>currentPlayers := currentPlayers r - 1\<rparr>" by (simp only: R) simp
      with True r0 len show ?thesis by (simp add: L G)
    next
      case False
      with h have "map_of (rooms s) k = Some x" by (simp only: R) simp
      with wfD_room[OF w this] False show ?thesis by (simp add: L G)
    qed
    show "\<exists>q. map_of (players ?s') pid = Some q \<and> roomId q = k"
      if h: "map_of (rooms ?s') k = Some x" "pid \<in> set (roomPlayerIds ?s' k)" for k x pid
    proof -
      from old[OF h(1)] obtain r0 where r0: "map_of (rooms s) k = Some r0" by blast
      from h(2) have mem: "pid \<in> set (roomPlayerIds s k)" and ne: "k = ?rk \<longrightarrow> pid \<noteq> pk"
        by (simp_all only: L) (simp_all split: if_splits)
      from wfD_room_member[OF w r0 mem] obtain q where q: "map_of (players s) pid = Some q"
        "roomId q = k" by blast
      with ne pl have "pid \<noteq> pk" by auto
      with q show ?thesis by (simp only: P) simp
    qed
    show "k' = k" if h: "map_of (rooms ?s') k = Some x" "map_of (rooms ?s') k' = Some x'"
      "code x' = code x" for k x k' x'
    proof -
      from old[OF h(1)] obtain a where a: "map_of (rooms s) k = Some a" "code a = code x" by blast
      from old[OF h(2)] obtain b where b: "map_of (rooms s) k' = Some b" "code b = code x'" by blast
      from wfD_code[OF w a(1) b(1)] a(2) b(2) h(3) show ?thesis by simp
    qed
    show "player_id q = k \<and> 0 \<le> chips q \<and> 0 \<le> player_currentBet q"
      if h: "map_of (players ?s') k = Some q" for k q
    proof -
      from h have "map_of (players s) k = Some q" by (simp only: P) (simp split: if_splits)
      from wfD_player[OF w this] show ?thesis by simp
    qed
    show "k \<in> set (roomPlayerIds ?s' (roomId q))"
      if h: "map_of (players ?s') k = Some q" "map_of (rooms ?s') (roomId q) = Some x" for k q x
    proof -
      from h(1) have m: "map_of (players s) k = Some q" and ne: "k \<noteq> pk"
        by (simp_all only: P) (simp_all split: if_splits)
      from old[OF h(2)] obtain r0 where "map_of (rooms s) (roomId q) = Some r0" by blast
      from wfD_seated[OF w m this] ne show ?thesis by (simp only: L) auto
    qed
    show "\<exists>q. map_of (players ?s') k = Some q \<and> socketId q = sock'"
      if h: "map_of (playersBySocket ?s') sock' = Some k" for sock' k
    proof -
      from h have b: "map_of (playersBySocket s) sock' = Some k" and ne: "sock' \<noteq> sock"
        by (simp_all only: B) (simp_all split: if_splits)
      from wfD_socket_player[OF w b] obtain q where q: "map_of (players s) k = Some q"
        "socketId q = sock'" by blast
      with ne sk pl have "k \<noteq> pk" by auto
      with q show ?thesis by (simp only: P) simp
    qed
  qed
qed

lemma leaveRoom_eq:
  assumes w: "wf s" and g: "getPlayerBySocketId s sock = Some p"
    and rm: "map_of (rooms s) (roomId p) = Some r"
  shows "leaveRoom sock s =
     (Success (),
      if currentPlayers r \<le> 2
      then deleteRoom (roomId p)
             (updateRoomPlayerCount (roomId p) (currentPlayers r - 1) (removePlayer (player_id p) s))
      else updateRoomPlayerCount (roomId p) (currentPlayers r - 1) (removePlayer (player_id p) s))"
proof -
  note pl = wf_found[OF w g]
  note r0 = wfD_room[OF w rm]
  have "player_id p \<in> set (roomPlayerIds s (roomId p))" by (rule wfD_seated[OF w pl(2) rm])
  then have "0 < length (roomPlayerIds s (roomId p))" by (cases "roomPlayerIds s (roomId p)") auto
  with r0(6) have pos: "1 \<le> currentPlayers r" by linarith
  have rd1: "readRoom (removePlayer (player_id p) s) (roomId p) r = r"
    by (simp add: readRoom_def eff rm)
  have rd2: "readRoom (updateRoomPlayerCount (roomId p) c (removePlayer (player_id p) s)) (roomId p) r
      = r\<lparr>currentPlayers := c\<rparr>" for c
    by (simp add: readRoom_def eff rm)
  from pos have mx: "max 0 (currentPlayers r - 1) = currentPlayers r - 1" by simp
  show ?thesis
    unfolding leaveRoom_def Let_def
    using g rm r0(1) pos by (simp add: getRoomById_def rd1 rd2 mx)
qed

lemma wf_leaveRoom:
  assumes w: "wf s"
  shows "wf (snd (leaveRoom sock s))"
proof (cases "getPlayerBySocketId s sock")
  case None
  with w show ?thesis by (simp add: leaveRoom_def)
next
  case (Some p)
  show ?thesis
  proof (cases "map_of (rooms s) (roomId p)")
    case None
    with w Some show ?thesis by (simp add: leaveRoom_def getRoomById_def)
  next
    case (Some r)
    note pl = wf_found[OF w \<open>getPlayerBySocketId s sock = Some p\<close>]
    note k = getPlayerBySocketId_SomeD[OF \<open>getPlayerBySocketId s sock = Some p\<close>]
    from k(1) pl(1) have so: "map_of (playersBySocket s) sock = Some (player_id p)" by simp
    have a: "wf (updateRoomPlayerCount (roomId p) (currentPlayers r - 1) (removePlayer (player_id p) s))"
      by (rule wf_leave_remove[OF w pl(2) so Some])
    show ?thesis
      unfolding leaveRoom_eq[OF w \<open>getPlayerBySocketId s sock = Some p\<close> Some]
      using a wf_deleteRoom[OF a] by simp
  qed
qed

lemma wf_emptyStore: "wf emptyStore"
  by (simp add: wf_def emptyStore_def)

lemma reachable_wf: "reachable s \<Longrightarrow> wf s"
proof (induction rule: reachable.induct)
  case reachable_empty
  show ?case by (rule wf_emptyStore)
next
  case (reachable_step s req s')
  show ?case
  proof (cases req)
    case (CreateRoom codes ru pu sock n)
    with reachable_step.hyps(2,3) obtain res where
      "freshUuid s ru" "freshUuid s pu" "createRoom codes ru pu sock n s = Some (res, s')"
      by auto
    with reachable_step.IH show ?thesis by (blast intro: wf_createRoom)
  next
    case (JoinRoom pu sock n c)
    with reachable_step.hyps(2,3) reachable_step.IH show ?thesis
      by (auto intro: wf_joinRoom)
  next
    case (LeaveRoom sock)
    with reachable_step.hyps(3) reachable_step.IH show ?thesis
      by (auto intro: wf_leaveRoom)
  next
    case (DealCards uuid rand rid)
    with reachable_step.hyps(3) reachable_step.IH show ?thesis
      by (auto intro: wf_dealCards)
  next
    case (HandlePlayerAction sock action amount)
    with reachable_step.hyps(3) reachable_step.IH show ?thesis
      by (auto intro: wf_handlePlayerAction)
  next
    case (SetPlayerReady sock b)
    with reachable_step.hyps(3) reachable_step.IH show ?thesis
      by (auto simp: manager_setPlayerReady_def intro: wf_setPlayerReady)
  next
    case (SetPlayerConnected sock b)
    with reachable_step.hyps(3) reachable_step.IH show ?thesis
      by (auto simp: manager_setPlayerConnected_def intro: wf_setPlayerConnected)
  qed
qed

section \<open>The concrete stores are reachable\<close>

lemma run_reachable: "reachable s \<Longrightarrow> run reqs s = Some s' \<Longrightarrow> reachable s'"
proof (induction reqs arbitrary: s)
  case Nil
  then show ?case by simp
next
  case (Cons req reqs)
  from Cons.prems(2) obtain s1 where f: "freshDraws req s" and st: "step req s = Some s1"
    and r: "run reqs s1 = Some s'"
    by (auto split: if_splits option.splits)
  from reachable_step[OF Cons.prems(1) f st] r show ?case by (rule Cons.IH)
qed

lemma run_tableOfTwo: "run tableOfTwoRequests emptyStore = Some tableOfTwo"
  by code_simp

lemma run_raisedTable: "run raisedRequests emptyStore = Some raisedTable"
  by code_simp

lemma reachable_tableOfTwo: "reachable tableOfTwo"
  by (rule run_reachable[OF reachable_empty run_tableOfTwo])

lemma reachable_raisedTable: "reachable raisedTable"
  by (rule run_reachable[OF reachable_empty run_raisedTable])


lemma run_fullTable: "run fullRequests emptyStore = Some fullTable"
  by code_simp

lemma run_tableOfThree: "run tableOfThreeRequests emptyStore = Some tableOfThree"
  by code_simp

lemma reachable_tableOfThree: "reachable tableOfThree"
  by (rule run_reachable[OF reachable_empty run_tableOfThree])


section \<open>Looking rooms up by code, and the players of a room\<close>

lemma getRoomByCode_NoneI:
  assumes "\<And>k r. map_of (rooms s) k = Some r \<Longrightarrow> code r \<noteq> c" "distinct (map fst (rooms s))"
  shows "getRoomByCode s c = None"
proof -
  have "code r \<noteq> c" if "r \<in> set (map snd (rooms s))" for r
  proof -
    from that obtain k where "(k, r) \<in> set (rooms s)" by auto
    with assms(2) have "map_of (rooms s) k = Some r" by simp
    then show ?thesis by (rule assms(1))
  qed
  then show ?thesis unfolding getRoomByCode_def by (auto simp: find_None_iff)
qed

lemma getRoomByCode_SomeI:
  assumes w: "wf s" and m: "map_of (rooms s) k = Some r"
  shows "getRoomByCode s (code r) = Some r"
proof (cases "getRoomByCode s (code r)")
  case None
  from getRoomByCode_NoneD[OF None m] show ?thesis by simp
next
  case (Some r')
  from getRoomByCode_SomeD[OF w Some] have a: "map_of (rooms s) (room_id r') = Some r'"
    "code r' = code r" by simp_all
  from wfD_code[OF w m a] a(1) m Some show ?thesis by simp
qed

lemma wf_seated_players:
  assumes w: "wf s" and m: "map_of (rooms s) k = Some r"
  shows "int (length (getPlayersByRoomId s k)) = currentPlayers r"
proof -
  have "\<forall>pid \<in> set (roomPlayerIds s k). map_of (players s) pid \<noteq> None"
    using wfD_room_member[OF w m] by auto
  then have "length (List.map_filter (map_of (players s)) (roomPlayerIds s k)) =
      length (roomPlayerIds s k)"
    by (simp add: List.map_filter_def)
  with wfD_room(6)[OF w m] show ?thesis by (simp add: getPlayersByRoomId_def)
qed

lemma map_filter_all:
  "\<forall>x \<in> set xs. f x \<noteq> None \<Longrightarrow> List.map_filter f xs = map (\<lambda>x. the (f x)) xs"
  by (induction xs) auto

lemma wf_room_players:
  assumes w: "wf s" and m: "map_of (rooms s) k = Some r"
  shows "getPlayersByRoomId s k = map (\<lambda>pid. the (map_of (players s) pid)) (roomPlayerIds s k)"
    "map player_id (getPlayersByRoomId s k) = roomPlayerIds s k"
    "distinct (map player_id (getPlayersByRoomId s k))"
proof -
  have ex: "\<forall>pid \<in> set (roomPlayerIds s k). map_of (players s) pid \<noteq> None"
    using wfD_room_member[OF w m] by auto
  show a: "getPlayersByRoomId s k = map (\<lambda>pid. the (map_of (players s) pid)) (roomPlayerIds s k)"
    unfolding getPlayersByRoomId_def by (rule map_filter_all[OF ex])
  have "player_id (the (map_of (players s) pid)) = pid" if "pid \<in> set (roomPlayerIds s k)" for pid
  proof -
    from wfD_room_member[OF w m that] obtain p where p: "map_of (players s) pid = Some p" by blast
    from wfD_player(1)[OF w p] p show ?thesis by simp
  qed
  then show b: "map player_id (getPlayersByRoomId s k) = roomPlayerIds s k"
    unfolding a by (simp add: map_idI)
  show "distinct (map player_id (getPlayersByRoomId s k))"
    unfolding b by (rule wfD_room(5)[OF w m])
qed

section \<open>Dealing\<close>

lemma setPlayerHand_fields:
  "map_of (players (setPlayerHand i cards s)) k = Some p' \<Longrightarrow>
     \<exists>p h. map_of (players s) k = Some p \<and> p' = p\<lparr>hand := h\<rparr>"
proof (cases "map_of (players s) i")
  case None
  assume "map_of (players (setPlayerHand i cards s)) k = Some p'"
  with None have "map_of (players s) k = Some p'" by (simp add: setPlayerHand_def)
  moreover have "p' = p'\<lparr>hand := hand p'\<rparr>" by simp
  ultimately show ?thesis by blast
next
  case (Some q)
  assume a: "map_of (players (setPlayerHand i cards s)) k = Some p'"
  show ?thesis
  proof (cases "k = i")
    case True
    with a Some have "p' = q\<lparr>hand := Some cards\<rparr>" by (simp add: eff)
    with True Some show ?thesis by blast
  next
    case False
    with a Some have "map_of (players s) k = Some p'" by (simp add: eff)
    moreover have "p' = p'\<lparr>hand := hand p'\<rparr>" by simp
    ultimately show ?thesis by blast
  qed
qed

lemma dealLoop_fields:
  "map_of (players (snd (dealLoop ps cards s))) k = Some p' \<Longrightarrow>
     \<exists>p h. map_of (players s) k = Some p \<and> p' = p\<lparr>hand := h\<rparr>"
proof (induction ps cards s arbitrary: p' rule: dealLoop.induct)
  case (1 cards s)
  then have "map_of (players s) k = Some p'" by simp
  moreover have "p' = p'\<lparr>hand := hand p'\<rparr>" by simp
  ultimately show ?case by blast
next
  case (2 player rest cards s)
  from "2.prems" have
    "map_of (players (snd (dealLoop rest (drop 4 cards)
        (setPlayerHand (player_id player) (take 4 cards) s)))) k = Some p'" by simp
  from "2.IH"[OF this] obtain q h where
    q: "map_of (players (setPlayerHand (player_id player) (take 4 cards) s)) k = Some q"
      "p' = q\<lparr>hand := h\<rparr>" by blast
  from setPlayerHand_fields[OF q(1)] obtain p h' where
    p: "map_of (players s) k = Some p" "q = p\<lparr>hand := h'\<rparr>" by blast
  from q(2) p(2) have "p' = p\<lparr>hand := h\<rparr>" by simp
  with p(1) show ?case by blast
qed

lemma length_shuffleLoop: "length (shuffleLoop rand n xs) = length xs"
  by (induction n arbitrary: xs) (simp_all add: Let_def)

lemma length_createDeck: "length (createDeck uuid rand) = 52"
proof -
  have "length (createDeck uuid rand) = length (List.product suits cardValues)"
    unfolding createDeck_def shuffleDeck_def length_shuffleLoop by simp
  also have "\<dots> = length suits * length cardValues" by (rule length_product)
  also have "\<dots> = 52" by (simp add: suits_def cardValues_def)
  finally show ?thesis .
qed

lemma dealLoop_untouched:
  "k \<notin> set (map player_id ps) \<Longrightarrow>
     map_of (players (snd (dealLoop ps cards s))) k = map_of (players s) k"
proof (induction ps cards s rule: dealLoop.induct)
  case (1 cards s)
  show ?case by simp
next
  case (2 player rest cards s)
  then have "k \<noteq> player_id player" "k \<notin> set (map player_id rest)" by auto
  with "2.IH" show ?case by (simp add: eff split: option.splits)
qed

lemma dealLoop_hand:
  "distinct (map player_id ps) \<Longrightarrow> i < length ps \<Longrightarrow>
   map_of (players s) (player_id (ps ! i)) = Some q \<Longrightarrow>
   map_of (players (snd (dealLoop ps cards s))) (player_id (ps ! i)) =
     Some (q\<lparr>hand := Some (take 4 (drop (4 * i) cards))\<rparr>)"
proof (induction ps cards s arbitrary: i rule: dealLoop.induct)
  case (1 cards s)
  then show ?case by simp
next
  case (2 player rest cards s)
  let ?s1 = "setPlayerHand (player_id player) (take 4 cards) s"
  show ?case
  proof (cases i)
    case 0
    with "2.prems" have q: "map_of (players s) (player_id player) = Some q"
      and nin: "player_id player \<notin> set (map player_id rest)" by auto
    from dealLoop_untouched[OF nin, of "drop 4 cards" ?s1] q 0 show ?thesis
      by (simp add: eff)
  next
    case (Suc j)
    with "2.prems" have d: "distinct (map player_id rest)" and j: "j < length rest"
      and nin: "player_id player \<notin> player_id ` set rest"
      and q: "map_of (players s) (player_id (rest ! j)) = Some q"
      by auto
    from j have "rest ! j \<in> set rest" by simp
    then have "player_id (rest ! j) \<in> player_id ` set rest" by (rule imageI)
    with nin have ne: "player_id (rest ! j) \<noteq> player_id player" by auto
    from q ne have q1: "map_of (players ?s1) (player_id (rest ! j)) = Some q"
      by (simp add: eff split: option.splits)
    from "2.IH"[OF d j q1] Suc show ?thesis by (simp add: add.commute)
  qed
qed

section \<open>The history only grows\<close>








section \<open>The chips of a room\<close>

lemma chipsOf_cong:
  assumes "\<And>pid. map_option chips (m' pid) = map_option chips (m pid)"
  shows "chipsOf (List.map_filter m' ids) = chipsOf (List.map_filter m ids)"
proof (induction ids)
  case Nil
  show ?case by simp
next
  case (Cons a ids)
  from assms[of a] Cons show ?case
    by (cases "m a"; cases "m' a") (simp_all add: chipsOf_def)
qed

lemma chipsOf_absent:
  assumes "k \<notin> set ids"
  shows "chipsOf (List.map_filter (m(k \<mapsto> p')) ids) = chipsOf (List.map_filter m ids)"
  using assms
proof (induction ids)
  case Nil
  show ?case by simp
next
  case (Cons a ids)
  then have "a \<noteq> k" "k \<notin> set ids" by auto
  with Cons.IH show ?case by (cases "m a") (simp_all add: chipsOf_def)
qed

lemma chipsOf_present:
  assumes "m k = Some p" "distinct ids" "k \<in> set ids"
  shows "chipsOf (List.map_filter (m(k \<mapsto> p')) ids) =
         chipsOf (List.map_filter m ids) + chips p' - chips p"
  using assms(2,3)
proof (induction ids)
  case Nil
  then show ?case by simp
next
  case (Cons a ids)
  show ?case
  proof (cases "a = k")
    case True
    with Cons.prems have "k \<notin> set ids" by simp
    from chipsOf_absent[OF this, of m p']
    have e: "chipsOf (List.map_filter (m(k \<mapsto> p')) ids) = chipsOf (List.map_filter m ids)" .
    have l: "chipsOf (List.map_filter (m(k \<mapsto> p')) (a # ids)) =
        chips p' + chipsOf (List.map_filter (m(k \<mapsto> p')) ids)"
      using True by (simp add: chipsOf_def)
    have r: "chipsOf (List.map_filter m (a # ids)) = chips p + chipsOf (List.map_filter m ids)"
      using True assms(1) by (simp add: chipsOf_def)
    from l r e show ?thesis by linarith
  next
    case False
    from Cons.prems False have "distinct ids" "k \<in> set ids" by auto
    from Cons.IH[OF this]
    have ih: "chipsOf (List.map_filter (m(k \<mapsto> p')) ids) =
         chipsOf (List.map_filter m ids) + chips p' - chips p" .
    have l: "chipsOf (List.map_filter (m(k \<mapsto> p')) (a # ids)) =
        (case m a of None \<Rightarrow> 0 | Some q \<Rightarrow> chips q) +
        chipsOf (List.map_filter (m(k \<mapsto> p')) ids)"
      using False by (cases "m a") (simp_all add: chipsOf_def)
    have r: "chipsOf (List.map_filter m (a # ids)) =
        (case m a of None \<Rightarrow> 0 | Some q \<Rightarrow> chips q) + chipsOf (List.map_filter m ids)"
      by (cases "m a") (simp_all add: chipsOf_def)
    from l r ih show ?thesis by linarith
  qed
qed

lemma roomTotal_cong:
  assumes "map_option pot (map_of (rooms s') k) = map_option pot (map_of (rooms s) k)"
    "roomPlayerIds s' = roomPlayerIds s"
    "\<And>pid. map_option chips (map_of (players s') pid) = map_option chips (map_of (players s) pid)"
  shows "roomTotal s' k = roomTotal s k"
proof -
  have "chipsOf (getPlayersByRoomId s' k) = chipsOf (getPlayersByRoomId s k)"
    unfolding getPlayersByRoomId_def assms(2) by (rule chipsOf_cong[OF assms(3)])
  with assms(1) show ?thesis
    unfolding roomTotal_def getRoomById_def
    by (cases "map_of (rooms s') k"; cases "map_of (rooms s) k") simp_all
qed

lemma roomTotal_setPlayerHasActed: "roomTotal (setPlayerHasActed i b s) k = roomTotal s k"
  by (rule roomTotal_cong) (simp_all add: eff split: option.splits)

lemma roomTotal_setPlayerFolded: "roomTotal (setPlayerFolded i b s) k = roomTotal s k"
  by (rule roomTotal_cong) (simp_all add: eff split: option.splits)

lemma roomTotal_updateRoomCurrentBet: "roomTotal (updateRoomCurrentBet i b s) k = roomTotal s k"
  by (rule roomTotal_cong) (simp_all add: eff split: option.splits)

lemma roomTotal_updatePlayerBet:
  assumes w: "wf s"
  shows "roomTotal (updatePlayerBet i d s) k = roomTotal s k"
proof (cases "map_of (players s) i")
  case None
  then have "updatePlayerBet i d s = s" by (simp add: updatePlayerBet_def)
  then show ?thesis by simp
next
  case (Some p)
  let ?s' = "updatePlayerBet i d s"
  let ?p' = "p\<lparr>player_currentBet := player_currentBet p + d, chips := chips p - d\<rparr>"
  have P: "map_of (players ?s') = (map_of (players s))(i \<mapsto> ?p')" by (simp add: eff Some)
  have L: "roomPlayerIds ?s' = roomPlayerIds s" by (simp add: eff)
  show ?thesis
  proof (cases "map_of (rooms s) k")
    case None
    then have "map_of (rooms ?s') k = None"
      by (auto simp: eff \<open>map_of (players s) i = Some p\<close> split: option.splits)
    with None show ?thesis by (simp add: roomTotal_def getRoomById_def)
  next
    case (Some r)
    note rk = this
    show ?thesis
    proof (cases "k = roomId p")
      case True
      with rk have R: "map_of (rooms ?s') k = Some (r\<lparr>pot := pot r + d\<rparr>)"
        by (simp add: eff \<open>map_of (players s) i = Some p\<close>)
      from True rk have seated: "i \<in> set (roomPlayerIds s k)"
        using wfD_seated[OF w \<open>map_of (players s) i = Some p\<close>] by simp
      have "chipsOf (getPlayersByRoomId ?s' k) = chipsOf (getPlayersByRoomId s k) + chips ?p' - chips p"
        unfolding getPlayersByRoomId_def P L
        by (rule chipsOf_present[where m = "map_of (players s)" and k = i and p = p,
              OF \<open>map_of (players s) i = Some p\<close> wfD_room(5)[OF w rk] seated])
      with R rk show ?thesis by (simp add: roomTotal_def getRoomById_def)
    next
      case False
      with rk have R: "map_of (rooms ?s') k = Some r"
        by (simp add: eff \<open>map_of (players s) i = Some p\<close> split: option.splits)
      have "i \<notin> set (roomPlayerIds s k)"
      proof
        assume "i \<in> set (roomPlayerIds s k)"
        from wfD_room_member[OF w rk this] \<open>map_of (players s) i = Some p\<close> False
        show False by auto
      qed
      then have "chipsOf (getPlayersByRoomId ?s' k) = chipsOf (getPlayersByRoomId s k)"
        unfolding getPlayersByRoomId_def P L by (rule chipsOf_absent)
      with R rk show ?thesis by (simp add: roomTotal_def getRoomById_def)
    qed
  qed
qed

lemma roomTotal_handlePlayerAction:
  assumes w: "wf s"
  shows "roomTotal (snd (handlePlayerAction sock action amount s)) k = roomTotal s k"
  unfolding handlePlayerAction_def Let_def
  by (simp add: roomTotal_setPlayerHasActed roomTotal_setPlayerFolded
      roomTotal_updateRoomCurrentBet roomTotal_updatePlayerBet[OF w] split: option.splits)

section \<open>Sums of doubles\<close>

text \<open>
  For evaluation: the bits are counted 64 at a time, and the quotient and the remainder
  by a power of two are taken by shifting.
\<close>

lemma bitLength_drop:
  "2 ^ k \<le> n \<Longrightarrow> bitLength n = int k + bitLength (n div 2 ^ k)"
proof (induction k arbitrary: n)
  case 0
  show ?case by simp
next
  case (Suc k)
  from Suc.prems have "2 * 2 ^ k \<le> n" by simp
  then have half: "2 ^ k \<le> n div 2" by linarith
  have "(0::int) < 2 ^ Suc k" by simp
  with Suc.prems have pos: "0 < n" by linarith
  from Suc.IH[OF half] have "bitLength (n div 2) = int k + bitLength (n div 2 div 2 ^ k)" .
  moreover have "n div 2 div 2 ^ k = n div 2 ^ Suc k"
    by (simp add: zdiv_zmult2_eq)
  moreover from pos have "bitLength n = 1 + bitLength (n div 2)"
    by (subst bitLength.simps) simp
  ultimately show ?case by simp
qed

lemma bitLength_code [code]:
  "bitLength n =
     (if n \<le> 0 then 0
      else if 2 ^ 64 \<le> n then 64 + bitLength (drop_bit 64 n)
      else 1 + bitLength (drop_bit 1 n))"
proof (cases "2 ^ 64 \<le> n")
  case True
  from bitLength_drop[OF this] True show ?thesis by (simp add: drop_bit_eq_div)
next
  case False
  then show ?thesis by (subst bitLength.simps) (simp add: drop_bit_eq_div)
qed

lemma roundAt_code [code]:
  "roundAt e n =
     push_bit e (nearestInteger (drop_bit e n) (n - push_bit e (drop_bit e n)) (push_bit e 1))"
proof -
  have "n mod 2 ^ e = n - 2 ^ e * (n div 2 ^ e)"
    by (simp add: minus_mult_div_eq_mod)
  then show ?thesis
    by (simp add: roundAt_def drop_bit_eq_div push_bit_eq_mult mult.commute)
qed

text \<open>
  A number of at most \<open>w\<close> bits; rounding a multiple of the unit it is rounded to; the
  sum and the difference of doubles are exact when the exact result is a safe integer.
\<close>

lemma bitLength_le:
  "0 \<le> n \<Longrightarrow> n < 2 ^ w \<Longrightarrow> bitLength n \<le> int w"
proof (induction w arbitrary: n)
  case 0
  then have "n = 0" by simp
  then show ?case by (subst bitLength.simps) simp
next
  case (Suc w)
  show ?case
  proof (cases "n \<le> 0")
    case True
    then show ?thesis by (subst bitLength.simps) simp
  next
    case False
    from Suc.prems have "n < 2 * 2 ^ w" by simp
    then have "n div 2 < 2 ^ w" by linarith
    moreover from Suc.prems have "0 \<le> n div 2" by simp
    ultimately have "bitLength (n div 2) \<le> int w" by (rule Suc.IH[rotated])
    moreover from False have "bitLength n = 1 + bitLength (n div 2)"
      by (subst bitLength.simps) simp
    ultimately show ?thesis by simp
  qed
qed

lemma roundAt_exact:
  assumes "2 ^ e dvd n"
  shows "roundAt e n = n"
proof -
  from assms have "n mod 2 ^ e = 0" by simp
  moreover from assms have "n div 2 ^ e * 2 ^ e = n" by simp
  ultimately show ?thesis by (simp add: roundAt_def nearestInteger_def)
qed

lemma roundToDouble_exact:
  assumes "safeInteger n"
  shows "roundToDouble n = n"
proof -
  from assms have d: "2 ^ 1074 dvd n" and b: "\<bar>n\<bar> < 2 ^ 53 * 2 ^ 1074"
    by (simp_all add: safeInteger_def ofInteger_def)
  have "(2::int) ^ 53 * 2 ^ 1074 = 2 ^ 1127" by (simp only: power_add[symmetric]) simp
  with b have "\<bar>n\<bar> < 2 ^ 1127" by (simp only:)
  with bitLength_le[of "\<bar>n\<bar>" 1127] have "bitLength \<bar>n\<bar> \<le> 1127" by simp
  then have le: "nat (bitLength \<bar>n\<bar> - 53) \<le> 1074" by simp
  have "(2::int) ^ nat (bitLength \<bar>n\<bar> - 53) dvd 2 ^ 1074"
    by (rule le_imp_power_dvd[OF le])
  with d have "2 ^ nat (bitLength \<bar>n\<bar> - 53) dvd n" by (rule dvd_trans[rotated])
  then show ?thesis unfolding roundToDouble_def by (rule roundAt_exact)
qed

lemma smallInteger_add:
  assumes "smallInteger x" "smallInteger y"
  shows "safeInteger (x + y)" "safeInteger (x - y)"
    "2 ^ 1074 dvd x - y" "\<bar>x - y\<bar> < ofInteger (2 ^ 52)"
proof -
  from assms have d: "2 ^ 1074 dvd x" "2 ^ 1074 dvd y"
    and b: "\<bar>x\<bar> < ofInteger (2 ^ 51)" "\<bar>y\<bar> < ofInteger (2 ^ 51)"
    by (simp_all add: smallInteger_def)
  have e: "ofInteger (2 ^ 51) + ofInteger (2 ^ 51) = ofInteger (2 ^ 52)"
    "ofInteger (2 ^ 52) < ofInteger (2 ^ 53)"
    by (simp_all add: ofInteger_def)
  from b e show "\<bar>x - y\<bar> < ofInteger (2 ^ 52)" by linarith
  from d show "2 ^ 1074 dvd x - y" by simp
  from d b e show "safeInteger (x + y)" unfolding safeInteger_def by (intro conjI dvd_add) linarith+
  from d b e show "safeInteger (x - y)" unfolding safeInteger_def by (intro conjI dvd_diff) linarith+
qed

text \<open>
  \<open>tenth\<close> and \<open>threeTenths\<close> are doubles of 53 bits, with last bits worth \<open>2 ^ 1018\<close>
  and \<open>2 ^ 1020\<close>, and lie less than half such a bit from 1/10 and 3/10.
\<close>

lemma tenth_nearest:
  "tenth = 7205759403792794 * 2 ^ 1018" "bitLength 7205759403792794 = 53"
  "\<bar>10 * tenth - ofInteger 1\<bar> < 5 * 2 ^ 1018"
  "bitLength 5404319552844595 = 53" "\<bar>10 * threeTenths - ofInteger 3\<bar> < 5 * 2 ^ 1020"
  by code_simp+

text \<open>
  The store of doubles of a store the manager can build has the same maps and keys, and
  what holds of every store the manager can build holds of it.
\<close>

lemma jsStore_maps:
  "map_of (rooms (jsStore s)) k = map_option jsRoom (map_of (rooms s) k)"
  "map_of (players (jsStore s)) k = map_option jsPlayer (map_of (players s) k)"
  "map fst (rooms (jsStore s)) = map fst (rooms s)"
  "map fst (players (jsStore s)) = map fst (players s)"
  "playersBySocket (jsStore s) = playersBySocket s"
  "playersByRoom (jsStore s) = playersByRoom s"
  "roomPlayerIds (jsStore s) = roomPlayerIds s"
  "betLog (jsStore s) = map jsEvent (betLog s)"
proof -
  show "map_of (rooms (jsStore s)) k = map_option jsRoom (map_of (rooms s) k)"
    "map_of (players (jsStore s)) k = map_option jsPlayer (map_of (players s) k)"
    by (simp_all add: jsStore_def map_of_map)
  show "map fst (rooms (jsStore s)) = map fst (rooms s)"
    "map fst (players (jsStore s)) = map fst (players s)"
    by (simp_all add: jsStore_def comp_def case_prod_unfold)
  show "playersBySocket (jsStore s) = playersBySocket s"
    "playersByRoom (jsStore s) = playersByRoom s"
    "roomPlayerIds (jsStore s) = roomPlayerIds s"
    "betLog (jsStore s) = map jsEvent (betLog s)"
    by (simp_all add: jsStore_def roomPlayerIds_def fun_eq_iff)
qed

lemma ofInteger_simps:
  "ofInteger (a + b) = ofInteger a + ofInteger b"
  "ofInteger 0 = 0"
  "0 \<le> ofInteger a \<longleftrightarrow> 0 \<le> a"
  by (simp_all add: ofInteger_def distrib_right zero_le_mult_iff)

lemma betsSinceDeal_jsEvent:
  "betsSinceDeal k (map jsEvent log) = ofInteger (betsSinceDeal k log)"
proof (induction log rule: rev_induct)
  case Nil
  show ?case by (simp add: betsSinceDeal_def ofInteger_simps)
next
  case (snoc e log)
  then show ?case
    by (cases e) (simp_all add: betsSinceDeal_snoc ofInteger_simps)
qed

lemma wf_jsStore:
  assumes w: "wf s"
  shows "wf (jsStore s)"
proof (rule wfI)
  show "distinct (map fst (rooms (jsStore s)))" "distinct (map fst (players (jsStore s)))"
    "distinct (map fst (playersBySocket (jsStore s)))"
    using wfD_keys[OF w] by (simp_all add: jsStore_maps)
next
  fix k r
  assume "map_of (rooms (jsStore s)) k = Some r"
  then obtain r0 where r0: "map_of (rooms s) k = Some r0" "r = jsRoom r0"
    by (auto simp: jsStore_maps)
  from wfD_room[OF w r0(1)] r0(2)
  show "room_id r = k \<and> maxPlayers r = 6 \<and> currentPlayers r \<le> 6 \<and> 0 \<le> room_currentBet r \<and>
       distinct (roomPlayerIds (jsStore s) k) \<and>
       int (length (roomPlayerIds (jsStore s) k)) = currentPlayers r \<and>
       pot r = betsSinceDeal k (betLog (jsStore s))"
    by (simp add: jsStore_maps jsRoom_def betsSinceDeal_jsEvent ofInteger_simps)
next
  fix k r pid
  assume "map_of (rooms (jsStore s)) k = Some r" "pid \<in> set (roomPlayerIds (jsStore s) k)"
  then obtain r0 where r0: "map_of (rooms s) k = Some r0" and m: "pid \<in> set (roomPlayerIds s k)"
    by (auto simp: jsStore_maps)
  from wfD_room_member[OF w r0 m]
  show "\<exists>p. map_of (players (jsStore s)) pid = Some p \<and> roomId p = k"
    by (auto simp: jsStore_maps jsPlayer_def)
next
  fix k r k' r'
  assume "map_of (rooms (jsStore s)) k = Some r" "map_of (rooms (jsStore s)) k' = Some r'"
    "code r' = code r"
  then obtain r0 r0' where "map_of (rooms s) k = Some r0" "map_of (rooms s) k' = Some r0'"
    "code r0' = code r0"
    by (auto simp: jsStore_maps jsRoom_def)
  then show "k' = k" by (rule wfD_code[OF w])
next
  fix k p
  assume "map_of (players (jsStore s)) k = Some p"
  then obtain p0 where p0: "map_of (players s) k = Some p0" "p = jsPlayer p0"
    by (auto simp: jsStore_maps)
  from wfD_player[OF w p0(1)] p0(2)
  show "player_id p = k \<and> 0 \<le> chips p \<and> 0 \<le> player_currentBet p"
    by (simp add: jsPlayer_def ofInteger_simps)
next
  fix k p r
  assume "map_of (players (jsStore s)) k = Some p" "map_of (rooms (jsStore s)) (roomId p) = Some r"
  then obtain p0 r0 where "map_of (players s) k = Some p0" "map_of (rooms s) (roomId p0) = Some r0"
    and e: "roomId p = roomId p0"
    by (auto simp: jsStore_maps jsPlayer_def)
  from wfD_seated[OF w this(1,2)] e
  show "k \<in> set (roomPlayerIds (jsStore s) (roomId p))" by (simp add: jsStore_maps)
next
  fix sock k
  assume "map_of (playersBySocket (jsStore s)) sock = Some k"
  then have "map_of (playersBySocket s) sock = Some k" by (simp add: jsStore_maps)
  from wfD_socket_player[OF w this]
  show "\<exists>p. map_of (players (jsStore s)) k = Some p \<and> socketId p = sock"
    by (auto simp: jsStore_maps jsPlayer_def)
qed

text \<open>
  On small integers the methods on doubles are the methods on integers.
\<close>

lemma updatePlayerBet_js_exact:
  assumes "\<And>p. map_of (players t) i = Some p \<Longrightarrow>
      safeInteger (player_currentBet p + d) \<and> safeInteger (chips p - d)"
    and "\<And>p r. map_of (players t) i = Some p \<Longrightarrow> map_of (rooms t) (roomId p) = Some r \<Longrightarrow>
      safeInteger (pot r + d)"
  shows "updatePlayerBet_js i d t = updatePlayerBet i d t"
proof (cases "map_of (players t) i")
  case None
  then show ?thesis by (simp add: updatePlayerBet_js_def updatePlayerBet_def)
next
  case (Some p)
  from assms(1)[OF Some]
  have a: "jsPlus (player_currentBet p) d = player_currentBet p + d"
    "jsMinus (chips p) d = chips p - d"
    by (simp_all add: jsPlus_def jsMinus_def roundToDouble_exact)
  show ?thesis
  proof (cases "map_of (rooms t) (roomId p)")
    case None
    with Some a show ?thesis by (simp add: updatePlayerBet_js_def updatePlayerBet_def)
  next
    case (Some r)
    from assms(2)[OF \<open>map_of (players t) i = Some p\<close> Some]
    have "jsPlus (pot r) d = pot r + d" by (simp add: jsPlus_def roundToDouble_exact)
    with Some \<open>map_of (players t) i = Some p\<close> a show ?thesis
      by (simp add: updatePlayerBet_js_def updatePlayerBet_def)
  qed
qed

lemma smallStoreD:
  assumes "smallStore t"
  shows "map_of (players t) i = Some p \<Longrightarrow> smallInteger (chips p)"
    "map_of (players t) i = Some p \<Longrightarrow> smallInteger (player_currentBet p)"
    "map_of (rooms t) k = Some r \<Longrightarrow> smallInteger (pot r)"
    "map_of (rooms t) k = Some r \<Longrightarrow> smallInteger (room_currentBet r)"
  using assms unfolding smallStore_def by (auto dest!: map_of_SomeD)

lemma safeInteger_sum:
  assumes "smallInteger x" "2 ^ 1074 dvd d" "\<bar>d\<bar> < ofInteger (2 ^ 52)"
  shows "safeInteger (x + d)" "safeInteger (x - d)"
proof -
  from assms(1) have x: "2 ^ 1074 dvd x" "\<bar>x\<bar> < ofInteger (2 ^ 51)"
    by (simp_all add: smallInteger_def)
  have e: "ofInteger (2 ^ 51) + ofInteger (2 ^ 52) < ofInteger (2 ^ 53)"
    by (simp add: ofInteger_def)
  from x assms(2,3) e show "safeInteger (x + d)"
    unfolding safeInteger_def by (intro conjI dvd_add) linarith+
  from x assms(2,3) e show "safeInteger (x - d)"
    unfolding safeInteger_def by (intro conjI dvd_diff) linarith+
qed

lemma updatePlayerBet_js_small:
  assumes "smallStore t" "2 ^ 1074 dvd d" "\<bar>d\<bar> < ofInteger (2 ^ 52)"
  shows "updatePlayerBet_js i d t = updatePlayerBet i d t"
proof (rule updatePlayerBet_js_exact)
  fix p
  assume "map_of (players t) i = Some p"
  from smallStoreD(1,2)[OF assms(1) this]
  show "safeInteger (player_currentBet p + d) \<and> safeInteger (chips p - d)"
    using safeInteger_sum[OF _ assms(2,3)] by blast
next
  fix p r
  assume "map_of (players t) i = Some p" "map_of (rooms t) (roomId p) = Some r"
  from smallStoreD(3)[OF assms(1) this(2)]
  show "safeInteger (pot r + d)" by (rule safeInteger_sum(1)[OF _ assms(2,3)])
qed

lemma smallInteger_bound:
  assumes "smallInteger x"
  shows "2 ^ 1074 dvd x" "\<bar>x\<bar> < ofInteger (2 ^ 52)"
proof -
  have "ofInteger (2 ^ 51) < ofInteger (2 ^ 52)" by (simp add: ofInteger_def)
  with assms show "2 ^ 1074 dvd x" "\<bar>x\<bar> < ofInteger (2 ^ 52)"
    by (simp_all add: smallInteger_def)
qed

lemma jsMinus_small:
  assumes "smallInteger x" "smallInteger y"
  shows "jsMinus x y = x - y"
  unfolding jsMinus_def by (rule roundToDouble_exact[OF smallInteger_add(2)[OF assms]])

lemma handlePlayerAction_js_small:
  assumes st: "smallStore t" and am: "smallAmount amount"
  shows "handlePlayerAction_js sock action amount t = handlePlayerAction sock action amount t"
proof (cases "getPlayerBySocketId t sock")
  case None
  then show ?thesis by (simp add: handlePlayerAction_js_def handlePlayerAction_def)
next
  case (Some player)
  note pl = this
  note k = getPlayerBySocketId_SomeD[OF pl]
  note sp = smallStoreD(1,2)[OF st k(3)]
  show ?thesis
  proof (cases "getRoomById t (roomId player)")
    case None
    with pl show ?thesis by (simp add: handlePlayerAction_js_def handlePlayerAction_def)
  next
    case (Some room)
    note rm = this
    then have "map_of (rooms t) (roomId player) = Some room" by (simp add: getRoomById_def)
    note sr = smallStoreD(3,4)[OF st this]
    have call: "jsMinus (room_currentBet room) (player_currentBet player) =
        room_currentBet room - player_currentBet player"
      by (rule jsMinus_small[OF sr(2) sp(2)])
    have u1: "updatePlayerBet_js i (room_currentBet room - player_currentBet player) t =
        updatePlayerBet i (room_currentBet room - player_currentBet player) t" for i
      by (rule updatePlayerBet_js_small[OF st smallInteger_add(3,4)[OF sr(2) sp(2)]])
    have u2: "updatePlayerBet_js i (chips player) t = updatePlayerBet i (chips player) t" for i
      by (rule updatePlayerBet_js_small[OF st smallInteger_bound[OF sp(1)]])
    have u3: "jsMinus a (player_currentBet player) = a - player_currentBet player \<and>
        updatePlayerBet_js i (a - player_currentBet player) t =
        updatePlayerBet i (a - player_currentBet player) t" if "amount = Some a" for a i
    proof -
      from am that have sa: "smallInteger a" by (simp add: smallAmount_def)
      show ?thesis
        using jsMinus_small[OF sa sp(2)]
          updatePlayerBet_js_small[OF st smallInteger_add(3,4)[OF sa sp(2)]] by simp
    qed
    show ?thesis
    proof (cases amount)
      case None
      with pl rm call u1 u2 show ?thesis
        by (simp add: handlePlayerAction_js_def handlePlayerAction_def Let_def)
    next
      case (Some a)
      with pl rm call u1 u2 u3[OF Some] show ?thesis
        by (simp add: handlePlayerAction_js_def handlePlayerAction_def Let_def)
    qed
  qed
qed

lemma roomTotal_handlePlayerAction_js:
  assumes "reachable s" "smallStore (jsStore s)" "smallAmount amount"
  shows "roomTotal (snd (handlePlayerAction_js sock action amount (jsStore s))) k =
         roomTotal (jsStore s) k"
proof -
  from assms(1) have "wf (jsStore s)" by (intro wf_jsStore reachable_wf)
  then have "roomTotal (snd (handlePlayerAction sock action amount (jsStore s))) k =
      roomTotal (jsStore s) k" by (rule roomTotal_handlePlayerAction)
  then show ?thesis by (simp only: handlePlayerAction_js_small[OF assms(2,3)])
qed

section \<open>Properties of the manager\<close>

subsection \<open>Dealing and the betting fields of the players\<close>

text \<open>
  C1, as the code has it. \<^verbatim>\<open>dealCards\<close> writes the hands of the players and nothing else
  of them: whether it succeeds or fails, every player of the store it leaves was there
  before the call with the same \<^verbatim>\<open>hasActed\<close>, \<^verbatim>\<open>isFolded\<close> and \<^verbatim>\<open>currentBet\<close>. So
  after a deal the three fields are false, false and 0 for the players for whom they
  were so before it, and for no others.
\<close>

theorem dealCards_leaves_betting_fields:
  assumes "dealCards uuid rand rid s = (res, s')" "getPlayerById s' k = Some p'"
  shows "\<exists>p. getPlayerById s k = Some p \<and> hasActed p' = hasActed p \<and>
           isFolded p' = isFolded p \<and> player_currentBet p' = player_currentBet p"
proof -
  have "\<exists>p h. map_of (players s) k = Some p \<and> p' = p\<lparr>hand := h\<rparr>"
  proof (cases "s' = s")
    case True
    with assms(2) have "map_of (players s) k = Some p'" by (simp add: getPlayerById_def)
    moreover have "p' = p'\<lparr>hand := hand p'\<rparr>" by simp
    ultimately show ?thesis by blast
  next
    case False
    with assms(1) obtain room where
      "players s' = players (snd (dealLoop (getPlayersByRoomId s rid) (createDeck uuid rand) s))"
      unfolding dealCards_def Let_def
      by (auto simp: eff case_prod_beta split: option.splits if_splits)
    with assms(2) have "map_of (players (snd (dealLoop (getPlayersByRoomId s rid)
        (createDeck uuid rand) s))) k = Some p'" by (simp add: getPlayerById_def)
    then show ?thesis by (rule dealLoop_fields)
  qed
  then obtain p h where "map_of (players s) k = Some p" "p' = p\<lparr>hand := h\<rparr>" by blast
  then show ?thesis by (simp add: getPlayerById_def)
qed

text \<open>
  At the table where alice has raised to 100 and bob has folded, bob is still folded after
  the deal; his hand is the second block of four cards.
\<close>

theorem dealCards_leaves_betting_fields_witness:
  "getPlayerById dealtPlayed ''p2'' =
     Some (bob\<lparr>isFolded := True, hand := Some (take 4 (drop 4 (createDeck noUuid noShuffle)))\<rparr>) \<and>
   getPlayerById playedTable ''p2'' = Some (bob\<lparr>isFolded := True\<rparr>)"
proof -
  let ?r = "dealCards noUuid noShuffle ''r1'' playedTable"
  let ?b = "bob\<lparr>isFolded := True, hand := Some (take 4 (drop 4 (createDeck noUuid noShuffle)))\<rparr>"
  have h1: "?r = (fst ?r, dealtPlayed)" by (simp add: dealtPlayed_def)
  have h2: "getPlayerById dealtPlayed ''p2'' = Some ?b" by code_simp
  have h3: "getPlayerById playedTable ''p2'' = Some (bob\<lparr>isFolded := True\<rparr>)" by code_simp
  from dealCards_leaves_betting_fields[OF h1 h2] h2 h3 show ?thesis by simp
qed

text \<open>
  C1 as stated fails at that table: the deal succeeds, and afterwards alice still has
  \<^verbatim>\<open>hasActed = true\<close> and \<^verbatim>\<open>currentBet = 100\<close>, and bob still has \<^verbatim>\<open>isFolded = true\<close>.
\<close>

theorem dealCards_resets_betting_fields_counterexample:
  "fst (dealCards noUuid noShuffle ''r1'' playedTable) = Success () \<and>
   map_option hasActed (getPlayerBySocketId dealtPlayed ''sockA'') = Some True \<and>
   map_option player_currentBet (getPlayerBySocketId dealtPlayed ''sockA'') = Some 100 \<and>
   map_option isFolded (getPlayerBySocketId dealtPlayed ''sockB'') = Some True"
  by code_simp

subsection \<open>All-in\<close>

text \<open>
  C2 at the table of two, where the room's bet is 0 and alice holds 1000 chips: her all-in
  succeeds, her chips are 0, her bet is 1000, she has acted and the pot is 1000, but the
  room's bet is still 0. The comparison \<^verbatim>\<open>player.chips > room.currentBet\<close> is made on the
  stored player after \<^verbatim>\<open>updatePlayerBet\<close> has taken all the chips, so it reads 0.
\<close>

theorem allIn_leaves_room_currentBet:
  "fst (handlePlayerAction ''sockA'' ''all-in'' None tableOfTwo) = Success () \<and>
   getPlayerBySocketId (snd (handlePlayerAction ''sockA'' ''all-in'' None tableOfTwo)) ''sockA'' =
     Some (alice\<lparr>chips := 0, player_currentBet := 1000, hasActed := True\<rparr>) \<and>
   getRoomById (snd (handlePlayerAction ''sockA'' ''all-in'' None tableOfTwo)) ''r1'' =
     Some (table\<lparr>pot := 1000, room_currentBet := 0\<rparr>)"
  by code_simp

text \<open>
  The same in every store the manager can build: an all-in is the two calls
  \<^verbatim>\<open>updatePlayerBet\<close> and \<^verbatim>\<open>setPlayerHasActed\<close> and never reaches
  \<^verbatim>\<open>updateRoomCurrentBet\<close>; of the room only the pot changes.
\<close>

lemma allIn_in_general:
  assumes re: "reachable s" and g: "getPlayerBySocketId s sock = Some p"
    and rm: "getRoomById s (roomId p) = Some r"
  shows "handlePlayerAction sock ''all-in'' amount s =
           (Success (),
            setPlayerHasActed (player_id p) True (updatePlayerBet (player_id p) (chips p) s))"
    and "getRoomById (snd (handlePlayerAction sock ''all-in'' amount s)) (roomId p) =
           Some (r\<lparr>pot := pot r + chips p\<rparr>)"
proof -
  have w: "wf s" by (rule reachable_wf[OF re])
  note pl = wf_found[OF w g]
  from rm have m: "map_of (rooms s) (roomId p) = Some r" by (simp add: getRoomById_def)
  let ?s2 = "setPlayerHasActed (player_id p) True (updatePlayerBet (player_id p) (chips p) s)"
  have P2: "map_of (players ?s2) (player_id p) =
      Some (p\<lparr>player_currentBet := player_currentBet p + chips p, chips := chips p - chips p,
               hasActed := True\<rparr>)"
    by (simp add: eff pl(2))
  have R2: "map_of (rooms ?s2) (roomId p) = Some (r\<lparr>pot := pot r + chips p\<rparr>)"
    by (simp add: eff pl(2) m)
  have rp: "chips (readPlayer ?s2 (playerKey s sock) p) = 0"
    unfolding pl(1) readPlayer_def P2 by simp
  have rr: "room_currentBet (readRoom ?s2 (roomId p) r) = room_currentBet r"
    unfolding readRoom_def R2 by simp
  from wfD_room(4)[OF w m] have nn: "\<not> 0 > room_currentBet r" by simp
  show e: "handlePlayerAction sock ''all-in'' amount s = (Success (), ?s2)"
    unfolding handlePlayerAction_def Let_def using g rm nn by (simp add: rp rr)
  show "getRoomById (snd (handlePlayerAction sock ''all-in'' amount s)) (roomId p) =
           Some (r\<lparr>pot := pot r + chips p\<rparr>)"
    unfolding e by (simp add: getRoomById_def R2)
qed

subsection \<open>Joining again\<close>

text \<open>
  C3, as the code has it. \<^verbatim>\<open>joinRoom\<close> compares the count of the room with
  \<^verbatim>\<open>maxPlayers\<close> before it looks at the socket. When the room that carries the code is
  full, the call fails with \<^verbatim>\<open>Room is full\<close> and changes nothing, whoever calls. When it
  is not full and the socket already leads to a player seated in it, the call succeeds
  with the id of that player, marks the player connected, and changes nothing else: the
  rooms (so the count of the room), the lists of players, the sockets and the keys of
  the players are what they were.
\<close>

theorem joinRoom_reconnect:
  assumes "getRoomByCode s c = Some room" "joinRoom playerUuid sock n c s = (res, s')"
  shows "(maxPlayers room \<le> currentPlayers room \<longrightarrow> res = Failure ''Room is full'' \<and> s' = s) \<and>
         (currentPlayers room < maxPlayers room \<longrightarrow>
          getPlayerBySocketId s sock = Some p \<longrightarrow> roomId p = room_id room \<longrightarrow>
            res = Success (player_id p, mapToPlayerState (p\<lparr>isConnected := True\<rparr>)) \<and>
            rooms s' = rooms s \<and> playersByRoom s' = playersByRoom s \<and>
            playersBySocket s' = playersBySocket s \<and>
            map fst (players s') = map fst (players s) \<and> getRoomByCode s' c = Some room)"
proof (intro conjI impI)
  assume "maxPlayers room \<le> currentPlayers room"
  with assms show "res = Failure ''Room is full''" "s' = s"
    by (simp_all add: joinRoom_def)
next
  assume free: "currentPlayers room < maxPlayers room"
    and g: "getPlayerBySocketId s sock = Some p" and same: "roomId p = room_id room"
  note k = getPlayerBySocketId_SomeD[OF g]
  let ?s1 = "setPlayerConnected sock True s"
  have s1: "?s1 = s\<lparr>players := AList.update (playerKey s sock) (p\<lparr>isConnected := True\<rparr>) (players s)\<rparr>"
    using k by (simp add: setPlayerConnected_def)
  have rd: "readPlayer ?s1 (playerKey s sock) p = p\<lparr>isConnected := True\<rparr>"
    using k by (simp add: readPlayer_def eff)
  from assms free g same
  have r: "res = Success (player_id p, mapToPlayerState (p\<lparr>isConnected := True\<rparr>))"
    and s': "s' = ?s1"
    unfolding joinRoom_def Let_def by (simp_all add: rd)
  have keys: "map fst (players ?s1) = map fst (players s)"
    unfolding s1 using k(3) by (simp add: AList.update_keys map_of_eq_None_iff[symmetric])
  show "res = Success (player_id p, mapToPlayerState (p\<lparr>isConnected := True\<rparr>))" by (rule r)
  show "rooms s' = rooms s" "playersByRoom s' = playersByRoom s"
    "playersBySocket s' = playersBySocket s" unfolding s' by (simp_all add: eff)
  show "map fst (players s') = map fst (players s)" unfolding s' by (rule keys)
  show "getRoomByCode s' c = Some room"
    using assms(1) unfolding s' by (simp add: eff getRoomByCode_def)
qed

text \<open>
  At the table of two, alice joins again; at the full table, a newcomer is turned away.
\<close>

theorem joinRoom_reconnect_witness:
  "joinRoom ''p3'' ''sockA'' ''alice'' ''ABC123'' tableOfTwo =
     (Success (''p1'', mapToPlayerState alice), tableOfTwo) \<and>
   joinRoom ''p7'' ''sockG'' ''gina'' ''ABC123'' fullTable = (Failure ''Room is full'', fullTable)"
proof -
  let ?r = "joinRoom ''p3'' ''sockA'' ''alice'' ''ABC123'' tableOfTwo"
  let ?f = "joinRoom ''p7'' ''sockG'' ''gina'' ''ABC123'' fullTable"
  have h1: "getRoomByCode tableOfTwo ''ABC123'' = Some table" by code_simp
  have h2: "getPlayerBySocketId tableOfTwo ''sockA'' = Some alice" by code_simp
  have h3: "roomId alice = room_id table" by code_simp
  have h4: "currentPlayers table < maxPlayers table" by code_simp
  have h5: "?r = (fst ?r, snd ?r)" by simp
  have e: "?r = (Success (''p1'', mapToPlayerState alice), tableOfTwo)" by code_simp
  have f1: "getRoomByCode fullTable ''ABC123'' = Some (table\<lparr>currentPlayers := 6\<rparr>)" by code_simp
  have f2: "maxPlayers (table\<lparr>currentPlayers := 6\<rparr>) \<le> currentPlayers (table\<lparr>currentPlayers := 6\<rparr>)"
    by code_simp
  have f3: "?f = (fst ?f, snd ?f)" by simp
  from joinRoom_reconnect[OF h1 h5, of alice] h2 h3 h4 e
  have a: "?r = (Success (''p1'', mapToPlayerState alice), tableOfTwo)" by simp
  from joinRoom_reconnect[OF f1 f3] f2
  have "fst ?f = Failure ''Room is full''" "snd ?f = fullTable" by simp_all
  then have b: "?f = (Failure ''Room is full'', fullTable)" by (simp add: prod_eq_iff)
  from a b show ?thesis by (rule conjI)
qed

text \<open>
  C3 as stated fails at the full table: alice is seated in the room with code
  \<^verbatim>\<open>ABC123\<close>, and her second \<^verbatim>\<open>joinRoom\<close> fails with \<^verbatim>\<open>Room is full\<close>, because the
  count is compared with \<^verbatim>\<open>maxPlayers\<close> before the socket is looked up.
\<close>

theorem joinRoom_reconnect_full_room_counterexample:
  "getRoomByCode fullTable ''ABC123'' = Some (table\<lparr>currentPlayers := 6\<rparr>) \<and>
   getPlayerBySocketId fullTable ''sockA'' = Some alice \<and>
   roomId alice = room_id (table\<lparr>currentPlayers := 6\<rparr>) \<and>
   joinRoom ''p7'' ''sockA'' ''alice'' ''ABC123'' fullTable = (Failure ''Room is full'', fullTable)"
  by code_simp

subsection \<open>The pot and the bets\<close>



subsection \<open>Chips are never negative\<close>

text \<open>
  C5. In a store the manager can build, whatever request comes next (a
  \<^verbatim>\<open>handlePlayerAction\<close> with any action and amount, succeeding or failing, or any other
  call), every player of the store it leaves has chips of at least 0.
\<close>

theorem chips_never_negative:
  assumes "reachable s" "freshDraws req s" "step req s = Some s'" "getPlayerById s' k = Some p'"
  shows "0 \<le> chips p'"
proof -
  have "reachable s'" by (rule reachable_step[OF assms(1,2,3)])
  then have "wf s'" by (rule reachable_wf)
  from wfD_player(2)[OF this] assms(4) show ?thesis by (simp add: getPlayerById_def)
qed

text \<open>
  After alice's raise to 100, bob calls and keeps 900 chips.
\<close>

theorem chips_never_negative_witness:
  "step (HandlePlayerAction ''sockB'' ''call'' None) raisedTable =
     Some (snd (handlePlayerAction ''sockB'' ''call'' None raisedTable)) \<and>
   getPlayerById (snd (handlePlayerAction ''sockB'' ''call'' None raisedTable)) ''p2'' =
     Some (bob\<lparr>chips := 900, player_currentBet := 100, hasActed := True\<rparr>) \<and>
   0 \<le> chips (bob\<lparr>chips := 900, player_currentBet := 100, hasActed := True\<rparr>)"
proof -
  let ?req = "HandlePlayerAction ''sockB'' ''call'' None"
  let ?s' = "snd (handlePlayerAction ''sockB'' ''call'' None raisedTable)"
  let ?b = "bob\<lparr>chips := 900, player_currentBet := 100, hasActed := True\<rparr>"
  have h2: "freshDraws ?req raisedTable" by simp
  have h3: "step ?req raisedTable = Some ?s'" by simp
  have h4: "getPlayerById ?s' ''p2'' = Some ?b" by code_simp
  from chips_never_negative[OF reachable_raisedTable h2 h3 h4] h3 h4 show ?thesis by simp
qed

subsection \<open>Leaving a room\<close>

text \<open>
  C6. In a store the manager can build, when \<^verbatim>\<open>leaveRoom\<close> succeeds for a player whose
  room had exactly two players seated, the room is gone afterwards and no room carries
  its code; when three or more were seated, the room is still there under its id and
  its code.
\<close>

theorem leaveRoom_deletes_room_of_two:
  assumes re: "reachable s" and lv: "leaveRoom sock s = (Success (), s')"
    and g: "getPlayerBySocketId s sock = Some p" and rm: "getRoomById s (roomId p) = Some r"
  shows "(length (getPlayersByRoomId s (roomId p)) = 2 \<longrightarrow>
            getRoomById s' (roomId p) = None \<and> getRoomByCode s' (code r) = None) \<and>
         (3 \<le> length (getPlayersByRoomId s (roomId p)) \<longrightarrow>
            getRoomById s' (roomId p) \<noteq> None \<and> getRoomByCode s' (code r) \<noteq> None)"
proof -
  have w: "wf s" by (rule reachable_wf[OF re])
  from rm have m: "map_of (rooms s) (roomId p) = Some r" by (simp add: getRoomById_def)
  have w': "wf s'" using wf_leaveRoom[OF w, of sock] lv by simp
  note n = wf_seated_players[OF w m]
  let ?s2 = "updateRoomPlayerCount (roomId p) (currentPlayers r - 1) (removePlayer (player_id p) s)"
  have s': "s' = (if currentPlayers r \<le> 2 then deleteRoom (roomId p) ?s2 else ?s2)"
    using leaveRoom_eq[OF w g m] lv by simp
  have R2: "map_of (rooms ?s2) = (map_of (rooms s))(roomId p \<mapsto> r\<lparr>currentPlayers := currentPlayers r - 1\<rparr>)"
    by (simp add: eff m)
  have two: "getRoomById s' (roomId p) = None \<and> getRoomByCode s' (code r) = None"
    if "length (getPlayersByRoomId s (roomId p)) = 2"
  proof -
    from that n have "currentPlayers r \<le> 2" by simp
    with s' have e: "s' = deleteRoom (roomId p) ?s2" by simp
    have R: "map_of (rooms s') = (map_of (rooms s))(roomId p := None)"
      unfolding e by (simp add: eff m)
    have "getRoomByCode s' (code r) = None"
    proof (rule getRoomByCode_NoneI)
      show "distinct (map fst (rooms s'))" by (rule wfD_keys(1)[OF w'])
      show "code x \<noteq> code r" if h: "map_of (rooms s') k = Some x" for k x
      proof
        assume c: "code x = code r"
        from h have k: "k \<noteq> roomId p" "map_of (rooms s) k = Some x"
          by (simp_all only: R) (simp_all split: if_splits)
        from wfD_code[OF w m k(2) c] k(1) show False by simp
      qed
    qed
    then show ?thesis by (simp add: getRoomById_def R)
  qed
  have three: "getRoomById s' (roomId p) \<noteq> None \<and> getRoomByCode s' (code r) \<noteq> None"
    if "3 \<le> length (getPlayersByRoomId s (roomId p))"
  proof -
    from that n have "\<not> currentPlayers r \<le> 2" by simp
    with s' have e: "s' = ?s2" by simp
    have R: "map_of (rooms s') (roomId p) = Some (r\<lparr>currentPlayers := currentPlayers r - 1\<rparr>)"
      unfolding e by (simp only: R2) simp
    from getRoomByCode_SomeI[OF w' R] R show ?thesis by (simp add: getRoomById_def)
  qed
  from two three show ?thesis by blast
qed

text \<open>
  Alice leaves the table of two, and alice leaves the table of three.
\<close>

theorem leaveRoom_deletes_room_of_two_witness:
  "leaveRoom ''sockA'' tableOfTwo = (Success (), snd (leaveRoom ''sockA'' tableOfTwo)) \<and>
   getRoomById (snd (leaveRoom ''sockA'' tableOfTwo)) ''r1'' = None \<and>
   getRoomByCode (snd (leaveRoom ''sockA'' tableOfTwo)) ''ABC123'' = None \<and>
   leaveRoom ''sockA'' tableOfThree = (Success (), snd (leaveRoom ''sockA'' tableOfThree)) \<and>
   getRoomById (snd (leaveRoom ''sockA'' tableOfThree)) ''r1'' =
     Some (table\<lparr>currentPlayers := 2\<rparr>) \<and>
   getRoomByCode (snd (leaveRoom ''sockA'' tableOfThree)) ''ABC123'' =
     Some (table\<lparr>currentPlayers := 2\<rparr>)"
proof -
  have a1: "leaveRoom ''sockA'' tableOfTwo = (Success (), snd (leaveRoom ''sockA'' tableOfTwo))"
    by code_simp
  have a2: "getPlayerBySocketId tableOfTwo ''sockA'' = Some alice" by code_simp
  have a3: "getRoomById tableOfTwo (roomId alice) = Some table" by code_simp
  have a4: "length (getPlayersByRoomId tableOfTwo (roomId alice)) = 2" by code_simp
  have b1: "leaveRoom ''sockA'' tableOfThree = (Success (), snd (leaveRoom ''sockA'' tableOfThree))"
    by code_simp
  have b2: "getPlayerBySocketId tableOfThree ''sockA'' = Some alice" by code_simp
  have b3: "getRoomById tableOfThree (roomId alice) = Some (table\<lparr>currentPlayers := 3\<rparr>)"
    by code_simp
  have b4: "3 \<le> length (getPlayersByRoomId tableOfThree (roomId alice))" by code_simp
  have b5: "getRoomById (snd (leaveRoom ''sockA'' tableOfThree)) ''r1'' =
     Some (table\<lparr>currentPlayers := 2\<rparr>)" by code_simp
  have b6: "getRoomByCode (snd (leaveRoom ''sockA'' tableOfThree)) ''ABC123'' =
     Some (table\<lparr>currentPlayers := 2\<rparr>)" by code_simp
  have c: "roomId alice = ''r1''" "code table = ''ABC123''" by (simp_all add: alice_def table_def)
  from leaveRoom_deletes_room_of_two[OF reachable_tableOfTwo a1 a2 a3] a4 c
  have two: "getRoomById (snd (leaveRoom ''sockA'' tableOfTwo)) ''r1'' = None"
    "getRoomByCode (snd (leaveRoom ''sockA'' tableOfTwo)) ''ABC123'' = None" by simp_all
  from leaveRoom_deletes_room_of_two[OF reachable_tableOfThree b1 b2 b3] b4
  have three: "getRoomById (snd (leaveRoom ''sockA'' tableOfThree)) (roomId alice) \<noteq> None" by simp
  from a1 two b1 b5 b6 three show ?thesis by simp
qed

text \<open>
  C7 at the table of two, when alice leaves. The comment above the test reads
  \<^verbatim>\<open>If room is empty, delete it\<close>, and the test \<^verbatim>\<open>room.currentPlayers <= 1\<close> reads the
  count that \<^verbatim>\<open>updateRoomPlayerCount\<close> has just written into the stored room: the room is
  deleted although bob is seated in it. \<^verbatim>\<open>deleteRoom\<close> removes the room and its list of
  player ids only, so bob is not evicted: his socket still leads to his record, which
  names a room that is gone, and from then on his own \<^verbatim>\<open>leaveRoom\<close> and every action of
  his fail with \<^verbatim>\<open>Room not found\<close>.
\<close>

theorem leaveRoom_strands_remaining_player:
  "fst (leaveRoom ''sockA'' tableOfTwo) = Success () \<and>
   getRoomById (snd (leaveRoom ''sockA'' tableOfTwo)) ''r1'' = None \<and>
   getPlayerBySocketId (snd (leaveRoom ''sockA'' tableOfTwo)) ''sockB'' = Some bob \<and>
   roomId bob = ''r1'' \<and>
   leaveRoom ''sockB'' (snd (leaveRoom ''sockA'' tableOfTwo)) =
     (Failure ''Room not found'', snd (leaveRoom ''sockA'' tableOfTwo)) \<and>
   handlePlayerAction ''sockB'' ''fold'' None (snd (leaveRoom ''sockA'' tableOfTwo)) =
     (Failure ''Room not found'', snd (leaveRoom ''sockA'' tableOfTwo))"
  by code_simp

text \<open>
  The same in every store the manager can build: when \<^verbatim>\<open>leaveRoom\<close> deletes a room (at
  most two players were seated, so at most one is left), the player found through any
  other socket, in particular the one left alone in the room, is still found through
  that socket, unchanged.
\<close>

lemma leaveRoom_in_general:
  assumes re: "reachable s" and g: "getPlayerBySocketId s sock = Some p"
    and rm: "getRoomById s (roomId p) = Some r"
    and few: "length (getPlayersByRoomId s (roomId p)) \<le> 2"
    and ne: "sock2 \<noteq> sock" and g2: "getPlayerBySocketId s sock2 = Some q"
  shows "fst (leaveRoom sock s) = Success () \<and>
         getRoomById (snd (leaveRoom sock s)) (roomId p) = None \<and>
         getPlayersByRoomId (snd (leaveRoom sock s)) (roomId p) = [] \<and>
         getPlayerBySocketId (snd (leaveRoom sock s)) sock2 = Some q"
proof -
  have w: "wf s" by (rule reachable_wf[OF re])
  from rm have m: "map_of (rooms s) (roomId p) = Some r" by (simp add: getRoomById_def)
  from wf_seated_players[OF w m] few have c: "currentPlayers r \<le> 2" by simp
  let ?s' = "deleteRoom (roomId p)
     (updateRoomPlayerCount (roomId p) (currentPlayers r - 1) (removePlayer (player_id p) s))"
  have e: "leaveRoom sock s = (Success (), ?s')" using leaveRoom_eq[OF w g m] c by simp
  note pl = wf_found[OF w g] and ql = wf_found[OF w g2]
  note kq = getPlayerBySocketId_SomeD[OF g2]
  have R: "map_of (rooms ?s') = (map_of (rooms s))(roomId p := None)" by (simp add: eff m)
  have L: "roomPlayerIds ?s' (roomId p) = []" by (simp add: eff)
  have P: "map_of (players ?s') = (map_of (players s))(player_id p := None)" by (simp add: eff)
  have B: "map_of (playersBySocket ?s') = (map_of (playersBySocket s))(sock := None)"
    by (simp add: eff pl)
  from pl(3) ql(3) ne have "p \<noteq> q" by auto
  with pl(2) ql(2) have d: "player_id q \<noteq> player_id p" by auto
  have "getPlayerBySocketId ?s' sock2 = Some q"
    unfolding getPlayerBySocketId_def using ne kq d ql(1,2) by (simp only: B P) simp
  moreover have "getPlayersByRoomId ?s' (roomId p) = []" by (simp add: getPlayersByRoomId_def L)
  moreover have "getRoomById ?s' (roomId p) = None" by (simp add: getRoomById_def R)
  ultimately show ?thesis by (simp add: e)
qed

subsection \<open>Failed actions\<close>

text \<open>
  C8. When \<^verbatim>\<open>handlePlayerAction\<close> returns a failure (no player for the socket, no room
  for the player, a check while the room's bet exceeds the player's, too few chips to call
  or to raise, a raise without an amount above the room's bet, an unknown action), the
  store it leaves is the store it was given: no field of any room or player has changed.
\<close>

theorem handlePlayerAction_failure_unchanged:
  "handlePlayerAction sock action amount s = (Failure e, s') \<Longrightarrow> s' = s"
  unfolding handlePlayerAction_def Let_def
  by (simp split: option.splits if_splits)

theorem handlePlayerAction_failure_unchanged_witness:
  "handlePlayerAction ''sockB'' ''check'' None raisedTable =
     (Failure ''Cannot check when there is a bet to call'', raisedTable)"
proof -
  have h: "handlePlayerAction ''sockB'' ''check'' None raisedTable =
     (Failure ''Cannot check when there is a bet to call'',
      snd (handlePlayerAction ''sockB'' ''check'' None raisedTable))"
    by code_simp
  from handlePlayerAction_failure_unchanged[OF h] h show ?thesis by simp
qed

subsection \<open>Four cards each\<close>

text \<open>
  C9. In a store the manager can build, when \<^verbatim>\<open>dealCards\<close> succeeds on a room, at
  least two players are seated in it, the fresh deck has 52 cards, the same players are
  seated afterwards, the hand of the \<open>i\<close>-th of them is the \<open>i\<close>-th block of four cards of
  the deck, and the deck stored with the room is what follows these blocks:
  \<open>52 - 4 * n\<close> cards for \<open>n\<close> players.
\<close>

theorem dealCards_four_cards_each:
  assumes re: "reachable s" and dl: "dealCards uuid rand rid s = (Success (), s')"
  shows "2 \<le> length (getPlayersByRoomId s rid) \<and>
         length (createDeck uuid rand) = 52 \<and>
         length (getPlayersByRoomId s' rid) = length (getPlayersByRoomId s rid) \<and>
         (\<forall>i < length (getPlayersByRoomId s rid).
            hand (getPlayersByRoomId s' rid ! i) =
              Some (take 4 (drop (4 * i) (createDeck uuid rand))) \<and>
            length (take 4 (drop (4 * i) (createDeck uuid rand))) = 4) \<and>
         map_option deck (getRoomById s' rid) =
           Some (Some (drop (4 * length (getPlayersByRoomId s rid)) (createDeck uuid rand))) \<and>
         length (drop (4 * length (getPlayersByRoomId s rid)) (createDeck uuid rand)) =
           52 - 4 * length (getPlayersByRoomId s rid)"
proof -
  let ?ps = "getPlayersByRoomId s rid" and ?d = "createDeck uuid rand"
  let ?s1 = "snd (dealLoop ?ps ?d s)"
  have w: "wf s" by (rule reachable_wf[OF re])
  from dl obtain r where m: "map_of (rooms s) rid = Some r"
    unfolding dealCards_def by (auto simp: getRoomById_def split: option.splits)
  from dl m have two: "2 \<le> length ?ps"
    unfolding dealCards_def Let_def by (auto simp: getRoomById_def split: if_splits)
  note rid = wfD_room(1)[OF w m]
  let ?u = "\<lparr>u_gameState = Some ''playing'', u_round = Some ''pre-flop'', u_pot = Some 0,
     u_currentBet = Some 0, u_deck = Some (fst (dealLoop ?ps ?d s)),
     u_communityCards = Some []\<rparr>"
  from dl m two rid have s': "s' = (updateRoomGameState rid ?u ?s1)
       \<lparr>betLog := betLog (updateRoomGameState rid ?u ?s1) @ [Deal rid]\<rparr>"
    unfolding dealCards_def Let_def by (simp add: getRoomById_def case_prod_beta)
  have P': "map_of (players s') = map_of (players ?s1)" unfolding s' by (simp add: eff)
  have L': "roomPlayerIds s' = roomPlayerIds s"
    unfolding s' by (rule roomPlayerIds_cong) (simp add: eff dealLoop_same)
  have R': "map_of (rooms s') rid = Some (assignUpdates r ?u)"
    unfolding s' by (simp add: eff dealLoop_same m)
  note ps = wf_room_players[OF w m]
  have n6: "length ?ps \<le> 6" using wf_seated_players[OF w m] wfD_room(3)[OF w m] by simp
  have len: "length ?d = 52" by (rule length_createDeck)
  have ids: "length (roomPlayerIds s rid) = length ?ps" using ps(2) by (metis length_map)
  have nth_id: "player_id (?ps ! i) = roomPlayerIds s rid ! i" if "i < length ?ps" for i
    using that ps(2) by (metis nth_map)
  have dealt: "map_of (players s') (roomPlayerIds s rid ! i) =
      Some ((?ps ! i)\<lparr>hand := Some (take 4 (drop (4 * i) ?d))\<rparr>)" if i: "i < length ?ps" for i
  proof -
    from i ids have li: "i < length (roomPlayerIds s rid)" by simp
    then have mem: "roomPlayerIds s rid ! i \<in> set (roomPlayerIds s rid)" by (rule nth_mem)
    from wfD_room_member[OF w m mem] obtain q where
      q: "map_of (players s) (roomPlayerIds s rid ! i) = Some q" by blast
    have "?ps ! i = map (\<lambda>pid. the (map_of (players s) pid)) (roomPlayerIds s rid) ! i"
      by (simp only: ps(1))
    also have "\<dots> = the (map_of (players s) (roomPlayerIds s rid ! i))" by (rule nth_map[OF li])
    also have "\<dots> = q" by (simp only: q option.sel)
    finally have pi: "?ps ! i = q" .
    have "map_of (players s) (player_id (?ps ! i)) = Some q"
      by (simp only: nth_id[OF i] q)
    from dealLoop_hand[OF ps(3) i this, of ?d]
    have "map_of (players ?s1) (player_id (?ps ! i)) =
        Some (q\<lparr>hand := Some (take 4 (drop (4 * i) ?d))\<rparr>)" .
    then have "map_of (players ?s1) (roomPlayerIds s rid ! i) =
        Some (q\<lparr>hand := Some (take 4 (drop (4 * i) ?d))\<rparr>)" by (simp only: nth_id[OF i])
    then show ?thesis by (simp only: P' pi)
  qed
  have all: "\<forall>pid \<in> set (roomPlayerIds s rid). map_of (players s') pid \<noteq> None"
  proof
    fix pid assume "pid \<in> set (roomPlayerIds s rid)"
    then obtain i where i: "i < length (roomPlayerIds s rid)" "pid = roomPlayerIds s rid ! i"
      by (auto simp: in_set_conv_nth)
    from i(1) ids have "i < length ?ps" by simp
    from dealt[OF this] i(2) show "map_of (players s') pid \<noteq> None" by simp
  qed
  have ps': "getPlayersByRoomId s' rid =
      map (\<lambda>pid. the (map_of (players s') pid)) (roomPlayerIds s rid)"
    unfolding getPlayersByRoomId_def L' by (rule map_filter_all[OF all])
  have len': "length (getPlayersByRoomId s' rid) = length ?ps"
    by (simp only: ps' length_map ids)
  have hands: "\<forall>i < length ?ps.
      hand (getPlayersByRoomId s' rid ! i) = Some (take 4 (drop (4 * i) ?d)) \<and>
      length (take 4 (drop (4 * i) ?d)) = 4"
  proof (intro allI impI)
    fix i assume i: "i < length ?ps"
    from i ids have li: "i < length (roomPlayerIds s rid)" by simp
    from i n6 len have l4: "length (take 4 (drop (4 * i) ?d)) = 4" by simp
    have "getPlayersByRoomId s' rid ! i = the (map_of (players s') (roomPlayerIds s rid ! i))"
      unfolding ps' by (rule nth_map[OF li])
    also have "\<dots> = (?ps ! i)\<lparr>hand := Some (take 4 (drop (4 * i) ?d))\<rparr>"
      by (simp only: dealt[OF i] option.sel)
    finally have "hand (getPlayersByRoomId s' rid ! i) = Some (take 4 (drop (4 * i) ?d))"
      by simp
    with l4 show "hand (getPlayersByRoomId s' rid ! i) = Some (take 4 (drop (4 * i) ?d)) \<and>
      length (take 4 (drop (4 * i) ?d)) = 4" by blast
  qed
  have dk: "map_option deck (getRoomById s' rid) = Some (Some (drop (4 * length ?ps) ?d))"
    by (simp add: getRoomById_def R' assignUpdates_def dealLoop_deck)
  have rest: "length (drop (4 * length ?ps) ?d) = 52 - 4 * length ?ps" by (simp add: len)
  show ?thesis using two len len' hands dk rest by (intro conjI) assumption+
qed

text \<open>
  The deal at the table of two: two hands of four cards, 44 cards left.
\<close>

theorem dealCards_four_cards_each_witness:
  "dealCards noUuid noShuffle ''r1'' tableOfTwo = (Success (), dealtOfTwo) \<and>
   length (getPlayersByRoomId tableOfTwo ''r1'') = 2 \<and>
   length (getPlayersByRoomId dealtOfTwo ''r1'') = 2 \<and>
   hand (getPlayersByRoomId dealtOfTwo ''r1'' ! 0) =
     Some (take 4 (drop (4 * 0) (createDeck noUuid noShuffle))) \<and>
   hand (getPlayersByRoomId dealtOfTwo ''r1'' ! 1) =
     Some (take 4 (drop (4 * 1) (createDeck noUuid noShuffle))) \<and>
   length (take 4 (drop (4 * 1) (createDeck noUuid noShuffle))) = 4 \<and>
   map_option deck (getRoomById dealtOfTwo ''r1'') =
     Some (Some (drop (4 * 2) (createDeck noUuid noShuffle))) \<and>
   length (drop (4 * 2) (createDeck noUuid noShuffle)) = 52 - 4 * 2"
proof -
  have h: "dealCards noUuid noShuffle ''r1'' tableOfTwo = (Success (), dealtOfTwo)"
    by code_simp
  have n: "length (getPlayersByRoomId tableOfTwo ''r1'') = 2" by code_simp
  note c = dealCards_four_cards_each[OF reachable_tableOfTwo h]
  from c have all: "\<forall>i < length (getPlayersByRoomId tableOfTwo ''r1'').
            hand (getPlayersByRoomId dealtOfTwo ''r1'' ! i) =
              Some (take 4 (drop (4 * i) (createDeck noUuid noShuffle))) \<and>
            length (take 4 (drop (4 * i) (createDeck noUuid noShuffle))) = 4" by blast
  have i0: "0 < length (getPlayersByRoomId tableOfTwo ''r1'')"
    and i1: "1 < length (getPlayersByRoomId tableOfTwo ''r1'')" by (simp_all only: n)
  from all i0 have p0: "hand (getPlayersByRoomId dealtOfTwo ''r1'' ! 0) =
     Some (take 4 (drop (4 * 0) (createDeck noUuid noShuffle)))" by blast
  from all i1 have p1: "hand (getPlayersByRoomId dealtOfTwo ''r1'' ! 1) =
     Some (take 4 (drop (4 * 1) (createDeck noUuid noShuffle))) \<and>
     length (take 4 (drop (4 * 1) (createDeck noUuid noShuffle))) = 4" by blast
  from c have r: "length (getPlayersByRoomId dealtOfTwo ''r1'') =
      length (getPlayersByRoomId tableOfTwo ''r1'')"
    "map_option deck (getRoomById dealtOfTwo ''r1'') =
      Some (Some (drop (4 * length (getPlayersByRoomId tableOfTwo ''r1''))
        (createDeck noUuid noShuffle)))"
    "length (drop (4 * length (getPlayersByRoomId tableOfTwo ''r1''))
        (createDeck noUuid noShuffle)) = 52 - 4 * length (getPlayersByRoomId tableOfTwo ''r1'')"
    by blast+
  from h n p0 p1 r[unfolded n] show ?thesis by (intro conjI) (simp_all only:)
qed

subsection \<open>Chip conservation\<close>

text \<open>
  C10, as the code has it. \<^verbatim>\<open>updatePlayerBet\<close> on a player whose room exists, when the
  three results (the chips less the amount, the bet plus the amount, the pot plus the
  amount) are safe integers: the sum of the player's chips and bet is exactly what it
  was, the bet has grown by exactly the amount, and so has the pot of the room. In the
  store of doubles of a store the manager can build, when the chips, bets, pots and the
  amount are small integers, \<^verbatim>\<open>handlePlayerAction\<close>, whatever it returns, leaves the pot
  plus the chips of the seated players of every room exactly as it was. All sums in the
  statement are exact sums.
\<close>

theorem chip_conservation_of_integers:
  "(getPlayerById t i = Some p \<longrightarrow> getRoomById t (roomId p) = Some r \<longrightarrow>
    safeInteger (chips p - d) \<longrightarrow> safeInteger (player_currentBet p + d) \<longrightarrow>
    safeInteger (pot r + d) \<longrightarrow>
      (\<exists>p' r'. getPlayerById (updatePlayerBet_js i d t) i = Some p' \<and>
         chips p' + player_currentBet p' = chips p + player_currentBet p \<and>
         player_currentBet p' = player_currentBet p + d \<and>
         getRoomById (updatePlayerBet_js i d t) (roomId p) = Some r' \<and> pot r' = pot r + d)) \<and>
   (reachable s \<longrightarrow> smallStore (jsStore s) \<longrightarrow> smallAmount amount \<longrightarrow>
      roomTotal (snd (handlePlayerAction_js sock action amount (jsStore s))) k =
      roomTotal (jsStore s) k)"
proof (intro conjI impI)
  assume a: "getPlayerById t i = Some p" "getRoomById t (roomId p) = Some r"
    and sf: "safeInteger (chips p - d)" "safeInteger (player_currentBet p + d)"
      "safeInteger (pot r + d)"
  have e: "updatePlayerBet_js i d t = updatePlayerBet i d t"
  proof (rule updatePlayerBet_js_exact)
    fix q
    assume "map_of (players t) i = Some q"
    with a(1) have "q = p" by (simp add: getPlayerById_def)
    with sf show "safeInteger (player_currentBet q + d) \<and> safeInteger (chips q - d)" by simp
  next
    fix q r0
    assume "map_of (players t) i = Some q" "map_of (rooms t) (roomId q) = Some r0"
    with a have "q = p \<and> r0 = r" by (simp add: getPlayerById_def getRoomById_def)
    with sf show "safeInteger (pot r0 + d)" by simp
  qed
  from a show "\<exists>p' r'. getPlayerById (updatePlayerBet_js i d t) i = Some p' \<and>
         chips p' + player_currentBet p' = chips p + player_currentBet p \<and>
         player_currentBet p' = player_currentBet p + d \<and>
         getRoomById (updatePlayerBet_js i d t) (roomId p) = Some r' \<and> pot r' = pot r + d"
    unfolding e by (simp add: getPlayerById_def getRoomById_def eff)
next
  assume "reachable s" "smallStore (jsStore s)" "smallAmount amount"
  then show "roomTotal (snd (handlePlayerAction_js sock action amount (jsStore s))) k =
      roomTotal (jsStore s) k"
    by (rule roomTotal_handlePlayerAction_js)
qed

text \<open>
  After alice's raise to 100, a bet of 100 by bob, and bob's call: the room holds 2000
  chips before and after.
\<close>

theorem chip_conservation_of_integers_witness:
  "getPlayerById (updatePlayerBet_js ''p2'' (ofInteger 100) (jsStore raisedTable)) ''p2'' =
     Some (jsPlayer (bob\<lparr>player_currentBet := 100, chips := 900\<rparr>)) \<and>
   map_option pot (getRoomById (updatePlayerBet_js ''p2'' (ofInteger 100) (jsStore raisedTable)) ''r1'') =
     Some (ofInteger 200) \<and>
   roomTotal (jsStore raisedTable) ''r1'' = Some (ofInteger 2000) \<and>
   roomTotal (snd (handlePlayerAction_js ''sockB'' ''call'' None (jsStore raisedTable))) ''r1'' =
     Some (ofInteger 2000)"
proof -
  let ?t = "jsStore raisedTable"
  let ?r = "jsRoom (table\<lparr>pot := 100, room_currentBet := 100\<rparr>)"
  have h1: "getPlayerById ?t ''p2'' = Some (jsPlayer bob)" by code_simp
  have h2: "getRoomById ?t (roomId (jsPlayer bob)) = Some ?r" by code_simp
  have h3: "safeInteger (chips (jsPlayer bob) - ofInteger 100)" by code_simp
  have h4: "safeInteger (player_currentBet (jsPlayer bob) + ofInteger 100)" by code_simp
  have h5: "safeInteger (pot ?r + ofInteger 100)" by code_simp
  have h6: "smallStore ?t" by code_simp
  have h7: "smallAmount None" by code_simp
  have e1: "getPlayerById (updatePlayerBet_js ''p2'' (ofInteger 100) ?t) ''p2'' =
     Some (jsPlayer (bob\<lparr>player_currentBet := 100, chips := 900\<rparr>))" by code_simp
  have e2: "map_option pot (getRoomById (updatePlayerBet_js ''p2'' (ofInteger 100) ?t) ''r1'') =
     Some (ofInteger 200)" by code_simp
  have e3: "roomTotal ?t ''r1'' = Some (ofInteger 2000)" by code_simp
  note c = chip_conservation_of_integers[where t = ?t and i = "''p2''" and p = "jsPlayer bob"
      and r = ?r and d = "ofInteger 100" and s = raisedTable and amount = None
      and sock = "''sockB''" and action = "''call''" and k = "''r1''"]
  from c h1 h2 h3 h4 h5 h6 h7 reachable_raisedTable
  have "roomTotal (snd (handlePlayerAction_js ''sockB'' ''call'' None ?t)) ''r1'' =
      roomTotal ?t ''r1''" by blast
  with e3 have e4: "roomTotal (snd (handlePlayerAction_js ''sockB'' ''call'' None ?t)) ''r1'' =
      Some (ofInteger 2000)" by (simp only:)
  from e1 e2 e3 e4 show ?thesis by (intro conjI)
qed

text \<open>
  C10 as stated fails for fractions and for large amounts. At the table of two, where
  alice holds 1000 chips and has bet nothing, she raises to 0.1 and then to 0.3, and both
  raises succeed. After the first, the pot and the chips of the room add up to
  \<^verbatim>\<open>819 / 2 ** 55\<close> less than 2000. After the second, alice's chips are
  999.6999999999999 and her bet is 0.3: their exact sum is \<^verbatim>\<open>1229 / 2 ** 54\<close> less than
  1000, and their sum as the program computes it is 999.9999999999999, one last bit
  under 1000. After a raise to 101, \<^verbatim>\<open>updatePlayerBet\<close> with the amount \<^verbatim>\<open>2 ** 53\<close> takes
  the pot from 101 to \<^verbatim>\<open>2 ** 53 + 100\<close>: the pot grows by one less than the amount.
\<close>

theorem chip_conservation_fraction_counterexample:
  "fst (handlePlayerAction_js ''sockA'' ''raise'' (Some tenth) (jsStore tableOfTwo)) = Success () \<and>
   fst (handlePlayerAction_js ''sockA'' ''raise'' (Some threeTenths) raisedByTenth) = Success () \<and>
   map_option chips (getPlayerById (jsStore tableOfTwo) ''p1'') = Some (ofInteger 1000) \<and>
   map_option player_currentBet (getPlayerById (jsStore tableOfTwo) ''p1'') = Some 0 \<and>
   roomTotal (jsStore tableOfTwo) ''r1'' = Some (ofInteger 2000) \<and>
   roomTotal raisedByTenth ''r1'' = Some (ofInteger 2000 - 819 * 2 ^ 1019) \<and>
   map_option chips (getPlayerById raisedByThreeTenths ''p1'') =
     Some (8793454194301337 * 2 ^ 1031) \<and>
   map_option player_currentBet (getPlayerById raisedByThreeTenths ''p1'') = Some threeTenths \<and>
   8793454194301337 * 2 ^ 1031 + threeTenths = ofInteger 1000 - 1229 * 2 ^ 1020 \<and>
   jsPlus (8793454194301337 * 2 ^ 1031) threeTenths = ofInteger 1000 - 2 ^ 1031 \<and>
   map_option pot (getRoomById raisedTo101 ''r1'') = Some (ofInteger 101) \<and>
   map_option pot
     (getRoomById (updatePlayerBet_js ''p2'' (ofInteger (2 ^ 53)) raisedTo101) ''r1'') =
     Some (ofInteger (2 ^ 53 + 100))"
  by code_simp

end
